theory Spec2Isabelle
  imports Main "HOL-Library.Finite_Map" "HOL-Library.Sublist"
begin

section \<open>Python strings\<close>

text \<open>
  A Python \<^verbatim>\<open>str\<close> is a sequence of Unicode code points. It is modelled as the list
  of its code points, so that text outside ASCII is one element per character, as in
  Python. \<open>lit\<close> turns an ASCII literal of the source into such a string.
\<close>

type_synonym pystr = "nat list"

definition lit :: "string \<Rightarrow> pystr" where
  "lit s = map of_char s"

text \<open>
  \<^verbatim>\<open>str(counter)\<close> for a Python int: the decimal digits, most significant first, with a
  minus sign for a negative number. Code point 48 is the digit zero, 45 the minus sign.
\<close>

fun digits :: "nat \<Rightarrow> pystr" where
  "digits n = (if n < 10 then [48 + n] else digits (n div 10) @ [48 + n mod 10])"

declare digits.simps [simp del]

definition str :: "int \<Rightarrow> pystr" where
  "str i = (if i < 0 then 45 # digits (nat (- i)) else digits (nat i))"

section \<open>The filename allocator\<close>

text \<open>
  \<^verbatim>\<open>
  def get_unique_filename(base_name="nft_data", extension=".json"):
      if not os.path.exists(f"{base_name}{extension}"):
          return f"{base_name}{extension}"
      counter = 1
      while True:
          new_filename = f"{base_name}_{counter}{extension}"
          if not os.path.exists(new_filename):
              return new_filename
          counter += 1
  \<close>
  The function reads the file system only through \<^verbatim>\<open>os.path.exists\<close>, which is the
  parameter \<open>path_exists\<close>: the set of paths that exist when the function runs. The
  \<^verbatim>\<open>while True\<close> loop has no bound, so it is a partial function: the value \<open>None\<close>
  stands for a loop that never returns.
\<close>

partial_function (option) get_unique_filename_loop ::
  "(pystr \<Rightarrow> bool) \<Rightarrow> pystr \<Rightarrow> pystr \<Rightarrow> int \<Rightarrow> pystr option" where
  "get_unique_filename_loop path_exists base_name extension counter =
     (let new_filename = base_name @ lit ''_'' @ str counter @ extension
      in if \<not> path_exists new_filename then Some new_filename
         else get_unique_filename_loop path_exists base_name extension (counter + 1))"

declare get_unique_filename_loop.simps [code]

definition get_unique_filename :: "(pystr \<Rightarrow> bool) \<Rightarrow> pystr \<Rightarrow> pystr \<Rightarrow> pystr option" where
  "get_unique_filename path_exists base_name extension =
     (if \<not> path_exists (base_name @ extension) then Some (base_name @ extension)
      else get_unique_filename_loop path_exists base_name extension 1)"

text \<open>
  The names the allocator probes, in the order it probes them: \<open>candidate b e 0\<close> is
  \<^verbatim>\<open>base.ext\<close> and \<open>candidate b e k\<close> is \<^verbatim>\<open>base_k.ext\<close> for \<open>k \<ge> 1\<close>.
\<close>

definition candidate :: "pystr \<Rightarrow> pystr \<Rightarrow> nat \<Rightarrow> pystr" where
  "candidate base_name extension k =
     (if k = 0 then base_name @ extension
      else base_name @ lit ''_'' @ str (int k) @ extension)"

section \<open>The file system\<close>

text \<open>
  The program touches the working directory through \<^verbatim>\<open>os.path.exists\<close> and
  \<^verbatim>\<open>open\<close>. A state of the file system is a finite map from paths to entries; a
  regular file holds its text (the contents as decoded from UTF-8). Contents that are
  not valid UTF-8 and access rights are not part of the model. Text that UTF-8 cannot
  encode is: a Python string may hold a lone surrogate (a code point from 55296 to
  57343), and writing it to a file opened with \<^verbatim>\<open>encoding='utf-8'\<close> raises
  \<^verbatim>\<open>UnicodeEncodeError\<close>.
\<close>

datatype entry = RegularFile pystr | Directory

type_synonym filesystem = "(pystr, entry) fmap"

definition os_path_exists :: "filesystem \<Rightarrow> pystr \<Rightarrow> bool" where
  "os_path_exists fs p = (fmlookup fs p \<noteq> None)"

datatype error = FileNotFoundError | IsADirectoryError | UnicodeEncodeError

text \<open>\<^verbatim>\<open>with open(p, 'r', encoding='utf-8') as f: content = f.read()\<close>\<close>

definition open_read :: "filesystem \<Rightarrow> pystr \<Rightarrow> error + pystr" where
  "open_read fs p =
     (case fmlookup fs p of
        None \<Rightarrow> Inl FileNotFoundError
      | Some Directory \<Rightarrow> Inl IsADirectoryError
      | Some (RegularFile content) \<Rightarrow> Inr content)"

text \<open>
  The scenario of repeated allocation: the allocator is called \<open>n\<close> times, and each
  returned path is created as a regular file (holding \<open>text\<close>) before the next call.
  The result is the list of the returned paths, in the order of the calls.
\<close>

fun allocate_and_create ::
  "filesystem \<Rightarrow> pystr \<Rightarrow> pystr \<Rightarrow> pystr \<Rightarrow> nat \<Rightarrow> pystr list option" where
  "allocate_and_create fs base_name extension text 0 = Some []"
| "allocate_and_create fs base_name extension text (Suc n) =
     (case get_unique_filename (os_path_exists fs) base_name extension of
        None \<Rightarrow> None
      | Some p \<Rightarrow>
          map_option ((#) p)
            (allocate_and_create (fmupd p (RegularFile text) fs) base_name extension text n))"

section \<open>The parsed document\<close>

text \<open>
  \<^verbatim>\<open>BeautifulSoup(content, 'html.parser')\<close> builds a tree of tags, text nodes and
  comments. The library is not part of the program; the operations the program calls
  are modelled here after the library's documented behaviour, and the parser itself is
  a parameter of the pipeline.

  A tag has a name, the list of its classes (the library splits the \<^verbatim>\<open>class\<close>
  attribute at whitespace; the list is empty when the tag has no such attribute), its
  other attributes (a dictionary from names to strings) and its children in document
  order.
\<close>

datatype element =
    Tag (tag_name: pystr) (tag_classes: "pystr list") (tag_attrs: "pystr \<rightharpoonup> pystr")
        (tag_contents: "element list")
  | NavigableString pystr
  | Comment pystr

text \<open>\<^verbatim>\<open>tag.descendants\<close>: every node below a tag, in document order (pre-order).\<close>

fun descendants :: "element \<Rightarrow> element list" where
  "descendants (Tag n cs as kids) = concat (map (\<lambda>k. k # descendants k) kids)"
| "descendants (NavigableString s) = []"
| "descendants (Comment s) = []"

text \<open>
  The test of \<^verbatim>\<open>find_all(name, class_=cls)\<close> on one node: a tag of that name with
  \<open>cls\<close> among its classes (\<open>cls\<close> is a single class, without whitespace).
\<close>

fun matches :: "pystr \<Rightarrow> pystr \<Rightarrow> element \<Rightarrow> bool" where
  "matches name cls (Tag n cs as kids) = (n = name \<and> cls \<in> set cs)"
| "matches name cls (NavigableString s) = False"
| "matches name cls (Comment s) = False"

text \<open>
  \<^verbatim>\<open>tag.find_all(name, class_=cls)\<close> keeps the matching descendants, in document
  order; \<^verbatim>\<open>tag.find(name, class_=cls)\<close> is the first of them, or \<^verbatim>\<open>None\<close>.
\<close>

definition find_all :: "element \<Rightarrow> pystr \<Rightarrow> pystr \<Rightarrow> element list" where
  "find_all root name cls = filter (matches name cls) (descendants root)"

definition find :: "element \<Rightarrow> pystr \<Rightarrow> pystr \<Rightarrow> element option" where
  "find root name cls =
     (case find_all root name cls of [] \<Rightarrow> None | r # rest \<Rightarrow> Some r)"

text \<open>\<^verbatim>\<open>tag.get(key)\<close>: the attribute's value, or \<^verbatim>\<open>None\<close> when the tag has none.\<close>

fun tag_get :: "element \<Rightarrow> pystr \<Rightarrow> pystr option" where
  "tag_get (Tag n cs as kids) key = as key"
| "tag_get (NavigableString s) key = None"
| "tag_get (Comment s) key = None"

text \<open>
  \<^verbatim>\<open>str.strip()\<close> removes leading and trailing whitespace; \<open>isspace\<close> lists the code
  points Python counts as whitespace.
\<close>

definition isspace :: "nat \<Rightarrow> bool" where
  "isspace c \<longleftrightarrow>
     (9 \<le> c \<and> c \<le> 13) \<or> (28 \<le> c \<and> c \<le> 32) \<or> c = 133 \<or> c = 160 \<or> c = 5760 \<or>
     (8192 \<le> c \<and> c \<le> 8202) \<or> c = 8232 \<or> c = 8233 \<or> c = 8239 \<or> c = 8287 \<or> c = 12288"

definition strip :: "pystr \<Rightarrow> pystr" where
  "strip s = rev (dropWhile isspace (rev (dropWhile isspace s)))"

text \<open>
  \<^verbatim>\<open>tag.get_text(strip=True)\<close>: the text nodes below the tag (comments are left out),
  each stripped, the empty ones dropped, joined with nothing in between.
\<close>

fun node_text :: "element \<Rightarrow> pystr list" where
  "node_text (NavigableString s) = [s]"
| "node_text (Tag n cs as kids) = []"
| "node_text (Comment s) = []"

definition get_text_strip :: "element \<Rightarrow> pystr" where
  "get_text_strip t =
     concat (filter (\<lambda>s. s \<noteq> []) (map strip (concat (map node_text (descendants t)))))"

section \<open>Serialisation to JSON\<close>

text \<open>
  The values the program hands to \<^verbatim>\<open>json.dump\<close>: strings, lists, and dictionaries
  with string keys. A dictionary keeps its insertion order, so it is a list of
  key-value pairs.
\<close>

datatype pyvalue = PyStr pystr | PyList "pyvalue list" | PyDict "(pystr \<times> pyvalue) list"

text \<open>
  \<^verbatim>\<open>json.encoder.py_encode_basestring\<close>, the string encoder chosen by
  \<^verbatim>\<open>ensure_ascii=False\<close>: only the backslash (92), the double quote (34) and the
  control characters below 32 are escaped; every other character is copied.
\<close>

definition hex_digit :: "nat \<Rightarrow> nat" where
  "hex_digit d = (if d < 10 then 48 + d else 87 + d)"

definition escape_char :: "nat \<Rightarrow> pystr" where
  "escape_char c =
     (if c = 92 then [92, 92]
      else if c = 34 then [92, 34]
      else if c = 8 then [92, 98]
      else if c = 12 then [92, 102]
      else if c = 10 then [92, 110]
      else if c = 13 then [92, 114]
      else if c = 9 then [92, 116]
      else if c < 32 then [92, 117, 48, 48, hex_digit (c div 16), hex_digit (c mod 16)]
      else [c])"

definition py_encode_basestring :: "pystr \<Rightarrow> pystr" where
  "py_encode_basestring s = [34] @ concat (map escape_char s) @ [34]"

text \<open>
  \<^verbatim>\<open>_make_iterencode\<close> with \<^verbatim>\<open>indent=4\<close>: the item separator is a comma, the key
  separator a colon and a space, and every item starts on a new line, indented by four
  spaces per nesting level. \<open>join\<close> is \<^verbatim>\<open>separator.join(chunks)\<close>.
\<close>

definition newline_indent :: "nat \<Rightarrow> pystr" where
  "newline_indent level = 10 # replicate (4 * level) 32"

fun join :: "pystr \<Rightarrow> pystr list \<Rightarrow> pystr" where
  "join sep [] = []"
| "join sep [x] = x"
| "join sep (x # y # ys) = x @ sep @ join sep (y # ys)"

fun iterencode :: "nat \<Rightarrow> pyvalue \<Rightarrow> pystr" where
  "iterencode level (PyStr s) = py_encode_basestring s"
| "iterencode level (PyList lst) =
     (if lst = [] then lit ''[]''
      else lit ''['' @ newline_indent (level + 1) @
           join (lit '','' @ newline_indent (level + 1)) (map (iterencode (level + 1)) lst) @
           newline_indent level @ lit '']'')"
| "iterencode level (PyDict dct) =
     (if dct = [] then lit ''{}''
      else lit ''{'' @ newline_indent (level + 1) @
           join (lit '','' @ newline_indent (level + 1))
             (map (\<lambda>item. py_encode_basestring (fst item) @ lit '': '' @
                            iterencode (level + 1) (snd item)) dct) @
           newline_indent level @ lit ''}'')"

text \<open>\<^verbatim>\<open>json.dump(obj, f, indent=4, ensure_ascii=False)\<close>: the text written to \<open>f\<close>.\<close>

definition json_dump :: "pyvalue \<Rightarrow> pystr" where
  "json_dump obj = iterencode 0 obj"

text \<open>
  \<^verbatim>\<open>json.dump\<close> does not write the text at once: it writes the chunks that the
  encoder yields, one \<^verbatim>\<open>fp.write(chunk)\<close> each. \<open>iterencode_chunks\<close> is the sequence
  of these chunks (\<^verbatim>\<open>_iterencode_list\<close>, \<^verbatim>\<open>_iterencode_dict\<close>): a list yields its
  opening bracket or separator together with a string item, and on its own before any
  other item; a dictionary yields the brace, the indentation, each separator, key,
  colon and value as chunks of their own.
\<close>

fun iterencode_chunks :: "nat \<Rightarrow> pyvalue \<Rightarrow> pystr list" where
  "iterencode_chunks level (PyStr s) = [py_encode_basestring s]"
| "iterencode_chunks level (PyList []) = [lit ''[]'']"
| "iterencode_chunks level (PyList (v # vs)) =
     (case v of
        PyStr s \<Rightarrow> [lit ''['' @ newline_indent (level + 1) @ py_encode_basestring s]
      | _ \<Rightarrow> (lit ''['' @ newline_indent (level + 1)) # iterencode_chunks (level + 1) v) @
     concat (map (\<lambda>x. case x of
                    PyStr s \<Rightarrow> [lit '','' @ newline_indent (level + 1) @ py_encode_basestring s]
                  | _ \<Rightarrow> (lit '','' @ newline_indent (level + 1)) #
                         iterencode_chunks (level + 1) x) vs) @
     [newline_indent level, lit '']'']"
| "iterencode_chunks level (PyDict []) = [lit ''{}'']"
| "iterencode_chunks level (PyDict (item # items)) =
     [lit ''{'', newline_indent (level + 1)] @
     ([py_encode_basestring (fst item), lit '': ''] @ iterencode_chunks (level + 1) (snd item)) @
     concat (map (\<lambda>x. [lit '','' @ newline_indent (level + 1), py_encode_basestring (fst x),
                        lit '': ''] @ iterencode_chunks (level + 1) (snd x)) items) @
     [newline_indent level, lit ''}'']"

text \<open>
  A string can be encoded as UTF-8 when it holds no surrogate code point. The file object
  encodes each chunk as it is written; the first chunk that cannot be encoded raises
  \<^verbatim>\<open>UnicodeEncodeError\<close>, and the chunks written before it stay in the file.
  \<open>fp_write_all\<close> is the loop \<^verbatim>\<open>for chunk in iterable: fp.write(chunk)\<close>: it returns
  the text written, or the error with the text written so far.
\<close>

definition utf8_encodable :: "pystr \<Rightarrow> bool" where
  "utf8_encodable s = list_all (\<lambda>c. \<not> (55296 \<le> c \<and> c \<le> 57343)) s"

fun fp_write_all :: "pystr list \<Rightarrow> pystr \<Rightarrow> error \<times> pystr + pystr" where
  "fp_write_all [] written = Inr written"
| "fp_write_all (chunk # chunks) written =
     (if utf8_encodable chunk then fp_write_all chunks (written @ chunk)
      else Inl (UnicodeEncodeError, written))"

text \<open>
  \<^verbatim>\<open>
  with open(p, 'w', encoding='utf-8') as f:
      json.dump(obj, f, indent=4, ensure_ascii=False)
  \<close>
  Opening creates the file, or empties it when it exists; a directory cannot be opened.
  When a write raises, the file is closed with what was written before, and the
  exception goes on to the caller.
\<close>

definition json_dump_file ::
  "filesystem \<Rightarrow> pystr \<Rightarrow> pyvalue \<Rightarrow> error \<times> filesystem + filesystem" where
  "json_dump_file fs p obj =
     (case fmlookup fs p of
        Some Directory \<Rightarrow> Inl (IsADirectoryError, fs)
      | _ \<Rightarrow>
          (case fp_write_all (iterencode_chunks 0 obj) [] of
             Inl (err, written) \<Rightarrow> Inl (err, fmupd p (RegularFile written) fs)
           | Inr written \<Rightarrow> Inr (fmupd p (RegularFile written) fs)))"

section \<open>The extraction pipeline\<close>

text \<open>
  The three fields of one container (the body of the \<^verbatim>\<open>for item in items\<close> loop):
  \<^verbatim>\<open>
  img_tag = item.find('img', class_='LibraryMedia')
  image_url = img_tag.get('src') if img_tag else None
  name_tag = item.find('span', class_='NftItemNameContent__name')
  name = name_tag.get_text(strip=True) if name_tag else "Unknown Name"
  price_tag = item.find('div', class_='LibraryCryptoPrice__amount')
  price = price_tag.get_text(strip=True) if price_tag else "Not Listed"
  \<close>
  A tag found by \<^verbatim>\<open>find\<close> is always true in a condition; \<^verbatim>\<open>None\<close> is false.
\<close>

definition image_url :: "element \<Rightarrow> pystr option" where
  "image_url item =
     (case find item (lit ''img'') (lit ''LibraryMedia'') of
        Some img_tag \<Rightarrow> tag_get img_tag (lit ''src'')
      | None \<Rightarrow> None)"

definition name :: "element \<Rightarrow> pystr" where
  "name item =
     (case find item (lit ''span'') (lit ''NftItemNameContent__name'') of
        Some name_tag \<Rightarrow> get_text_strip name_tag
      | None \<Rightarrow> lit ''Unknown Name'')"

definition price :: "element \<Rightarrow> pystr" where
  "price item =
     (case find item (lit ''div'') (lit ''LibraryCryptoPrice__amount'') of
        Some price_tag \<Rightarrow> get_text_strip price_tag
      | None \<Rightarrow> lit ''Not Listed'')"

text \<open>
  \<^verbatim>\<open>
  if image_url:
      nft_data.append({"name": name, "price": price, "image_url": image_url})
  \<close>
  The condition is Python's truth test: \<^verbatim>\<open>None\<close> and the empty string are false.
\<close>

definition process_item :: "element \<Rightarrow> pyvalue list \<Rightarrow> pyvalue list" where
  "process_item item nft_data =
     (case image_url item of
        None \<Rightarrow> nft_data
      | Some url \<Rightarrow>
          if url \<noteq> [] then
            nft_data @ [PyDict [(lit ''name'', PyStr (name item)),
                                (lit ''price'', PyStr (price item)),
                                (lit ''image_url'', PyStr url)]]
          else nft_data)"

text \<open>
  The console: one message per \<^verbatim>\<open>print\<close> of the source (the texts are Russian
  sentences; the model keeps what they report).
\<close>

datatype message =
    InputNotFound pystr
  | Processed nat
  | SavedTo pystr
  | NothingFound

record world =
  files :: filesystem
  stdout :: "message list"

definition py_print :: "message \<Rightarrow> world \<Rightarrow> world" where
  "py_print m w = w\<lparr>stdout := stdout w @ [m]\<rparr>"

text \<open>
  \<^verbatim>\<open>parse_html_to_json()\<close>. The result is \<open>None\<close> when the allocator's loop never
  returns, \<open>Some (Inl (err, w'))\<close> when the exception \<open>err\<close> leaves the function in the
  state \<open>w'\<close>, and \<open>Some (Inr w')\<close> when the function returns normally in the state
  \<open>w'\<close>. Only \<^verbatim>\<open>FileNotFoundError\<close> is caught.
\<close>

definition parse_html_to_json ::
  "(pystr \<Rightarrow> element) \<Rightarrow> world \<Rightarrow> (error \<times> world + world) option" where
  "parse_html_to_json html_parser w =
     (let html_file = lit ''index.html'' in
      case get_unique_filename (os_path_exists (files w)) (lit ''nft_collection'') (lit ''.json'') of
        None \<Rightarrow> None
      | Some json_output_file \<Rightarrow>
          (case open_read (files w) html_file of
             Inl err \<Rightarrow>
               if err = FileNotFoundError
               then Some (Inr (py_print (InputNotFound html_file) w))
               else Some (Inl (err, w))
           | Inr content \<Rightarrow>
               (let soup = html_parser content;
                    items = find_all soup (lit ''div'') (lit ''NftItemContainer'');
                    nft_data = fold process_item items []
                in if nft_data \<noteq> [] then
                     (case json_dump_file (files w) json_output_file (PyList nft_data) of
                        Inl (err, fs) \<Rightarrow> Some (Inl (err, w\<lparr>files := fs\<rparr>))
                      | Inr fs \<Rightarrow>
                          Some (Inr (py_print (SavedTo json_output_file)
                                      (py_print (Processed (length nft_data))
                                         (w\<lparr>files := fs\<rparr>)))))
                   else Some (Inr (py_print NothingFound w)))))"

section \<open>Reading the document back\<close>

text \<open>
  \<^verbatim>\<open>json.load\<close> is not called by the program; it is modelled after the standard
  library's decoder (\<^verbatim>\<open>json.decoder\<close>, \<^verbatim>\<open>json.scanner\<close>) to state what reading the
  written file back gives. The functions take the text that is left to read and return
  the decoded value with the text after it. The result \<open>None\<close> stands for every way in
  which the decoder does not return a value of the model: it raises
  \<^verbatim>\<open>JSONDecodeError\<close>, the text holds a number or one of \<^verbatim>\<open>null\<close>, \<^verbatim>\<open>true\<close>,
  \<^verbatim>\<open>false\<close> (which the program never writes), or the fuel of the recursion is used up.
\<close>

text \<open>\<^verbatim>\<open>WHITESPACE.match(s, end).end()\<close>: skip blanks, tabs, line feeds, carriage returns.\<close>

definition json_ws :: "nat \<Rightarrow> bool" where
  "json_ws c \<longleftrightarrow> c = 32 \<or> c = 9 \<or> c = 10 \<or> c = 13"

definition skip_ws :: "pystr \<Rightarrow> pystr" where
  "skip_ws s = dropWhile json_ws s"

text \<open>The value of a hexadecimal digit, and of the four digits of a \<^verbatim>\<open>\uXXXX\<close> escape.\<close>

definition hex_val :: "nat \<Rightarrow> nat option" where
  "hex_val c =
     (if 48 \<le> c \<and> c \<le> 57 then Some (c - 48)
      else if 97 \<le> c \<and> c \<le> 102 then Some (c - 87)
      else if 65 \<le> c \<and> c \<le> 70 then Some (c - 55)
      else None)"

definition decode_uXXXX :: "nat \<Rightarrow> nat \<Rightarrow> nat \<Rightarrow> nat \<Rightarrow> nat option" where
  "decode_uXXXX a b c d =
     (case hex_val a of None \<Rightarrow> None | Some x \<Rightarrow>
      case hex_val b of None \<Rightarrow> None | Some y \<Rightarrow>
      case hex_val c of None \<Rightarrow> None | Some z \<Rightarrow>
      case hex_val d of None \<Rightarrow> None | Some w \<Rightarrow>
        Some (((x * 16 + y) * 16 + z) * 16 + w))"

text \<open>The table \<^verbatim>\<open>BACKSLASH\<close> of the one-letter escapes.\<close>

definition backslash :: "nat \<Rightarrow> nat option" where
  "backslash e =
     (if e = 34 then Some 34
      else if e = 92 then Some 92
      else if e = 47 then Some 47
      else if e = 98 then Some 8
      else if e = 102 then Some 12
      else if e = 110 then Some 10
      else if e = 114 then Some 13
      else if e = 116 then Some 9
      else None)"

text \<open>
  A \<^verbatim>\<open>\uXXXX\<close> escape, from the character after the \<^verbatim>\<open>u\<close>: the character it
  stands for and the text after it. A high surrogate (55296 to 56319) followed by the
  escape of a low surrogate (56320 to 57343) is one character; the value \<open>None\<close> is the
  error \<^verbatim>\<open>Invalid \uXXXX escape\<close>.
\<close>

definition unicode_escape :: "pystr \<Rightarrow> (nat \<times> pystr) option" where
  "unicode_escape s1 =
     (case s1 of
        a # b # c # d # s2 \<Rightarrow>
          (case decode_uXXXX a b c d of
             None \<Rightarrow> None
           | Some uni \<Rightarrow>
               (case s2 of
                  x # y # a2 # b2 # c2 # d2 # s3 \<Rightarrow>
                    if 55296 \<le> uni \<and> uni \<le> 56319 \<and> x = 92 \<and> y = 117 then
                      (case decode_uXXXX a2 b2 c2 d2 of
                         None \<Rightarrow> None
                       | Some uni2 \<Rightarrow>
                           if 56320 \<le> uni2 \<and> uni2 \<le> 57343
                           then Some (65536 + (uni - 55296) * 1024 + (uni2 - 56320), s3)
                           else Some (uni, s2))
                    else Some (uni, s2)
                | _ \<Rightarrow> Some (uni, s2)))
      | _ \<Rightarrow> None)"

text \<open>
  \<^verbatim>\<open>scanstring(s, end, strict=True)\<close>, from the character after the opening quote:
  the decoded string and the text after the closing quote. A literal control character
  is an error, and so is a string without its closing quote.
\<close>

function scanstring :: "pystr \<Rightarrow> (pystr \<times> pystr) option" where
  "scanstring [] = None"
| "scanstring (c # s) =
     (if c = 34 then Some ([], s)
      else if c = 92 then
        (case s of
           [] \<Rightarrow> None
         | e # s1 \<Rightarrow>
             if e \<noteq> 117 then
               (case backslash e of
                  None \<Rightarrow> None
                | Some ch \<Rightarrow> map_option (\<lambda>(t, r). (ch # t, r)) (scanstring s1))
             else
               (case unicode_escape s1 of
                  None \<Rightarrow> None
                | Some (ch, s2) \<Rightarrow> map_option (\<lambda>(t, r). (ch # t, r)) (scanstring s2)))
      else if c < 32 then None
      else map_option (\<lambda>(t, r). (c # t, r)) (scanstring s))"
  by pat_completeness auto
termination
proof (relation "measure length")
  show "wf (measure length)" by simp
next
  fix c :: nat and s :: pystr and e s1
  assume "s = e # s1"
  then show "(s1, c # s) \<in> measure length" by simp
next
  fix c :: nat and s :: pystr and e s1 x2 ch s2
  assume s: "s = e # s1" and u: "unicode_escape s1 = Some x2" and x: "(ch, s2) = x2"
  from u x have "length s2 \<le> length s1"
    by (auto simp: unicode_escape_def split: list.splits option.splits if_splits)
  with s show "(s2, c # s) \<in> measure length" by simp
next
  fix c :: nat and s :: pystr
  show "(s, c # s) \<in> measure length" by simp
qed

declare scanstring.simps [simp del]

text \<open>
  \<^verbatim>\<open>dict(pairs)\<close>: a later pair with a key that is already there replaces the value and
  keeps the key's place.
\<close>

fun dict_set :: "pystr \<Rightarrow> pyvalue \<Rightarrow> (pystr \<times> pyvalue) list \<Rightarrow> (pystr \<times> pyvalue) list" where
  "dict_set k v [] = [(k, v)]"
| "dict_set k v ((k', v') # d) = (if k = k' then (k, v) # d else (k', v') # dict_set k v d)"

definition dict_of_pairs :: "(pystr \<times> pyvalue) list \<Rightarrow> (pystr \<times> pyvalue) list" where
  "dict_of_pairs pairs = fold (\<lambda>kv d. dict_set (fst kv) (snd kv) d) pairs []"

text \<open>
  \<^verbatim>\<open>scan_once\<close>, \<^verbatim>\<open>JSONArray\<close> and \<^verbatim>\<open>JSONObject\<close>. \<open>scan_once\<close> reads one value;
  \<open>array_loop\<close> is the \<^verbatim>\<open>while True\<close> loop of \<^verbatim>\<open>JSONArray\<close>, entered at a value;
  \<open>object_loop\<close> is the loop of \<^verbatim>\<open>JSONObject\<close>, entered after the opening quote of a
  key. The first argument is the fuel: it goes down by one with every call.
\<close>

fun scan_once :: "nat \<Rightarrow> pystr \<Rightarrow> (pyvalue \<times> pystr) option"
  and array_loop :: "nat \<Rightarrow> pystr \<Rightarrow> pyvalue list \<Rightarrow> (pyvalue list \<times> pystr) option"
  and object_loop ::
    "nat \<Rightarrow> pystr \<Rightarrow> (pystr \<times> pyvalue) list \<Rightarrow> ((pystr \<times> pyvalue) list \<times> pystr) option"
where
  "scan_once 0 s = None"
| "scan_once (Suc n) s =
     (case s of
        [] \<Rightarrow> None
      | c # r \<Rightarrow>
          if c = 34 then map_option (\<lambda>(t, r'). (PyStr t, r')) (scanstring r)
          else if c = 123 then
            (case skip_ws r of
               [] \<Rightarrow> None
             | d # r1 \<Rightarrow>
                 if d = 125 then Some (PyDict [], r1)
                 else if d = 34 then
                   map_option (\<lambda>(pairs, r2). (PyDict (dict_of_pairs pairs), r2))
                     (object_loop n r1 [])
                 else None)
          else if c = 91 then
            (case skip_ws r of
               [] \<Rightarrow> None
             | d # r1 \<Rightarrow>
                 if d = 93 then Some (PyList [], r1)
                 else map_option (\<lambda>(vs, r2). (PyList vs, r2)) (array_loop n (d # r1) []))
          else None)"
| "array_loop 0 s vs = None"
| "array_loop (Suc n) s vs =
     (case scan_once n s of
        None \<Rightarrow> None
      | Some (v, r) \<Rightarrow>
          (case skip_ws r of
             [] \<Rightarrow> None
           | c # r1 \<Rightarrow>
               if c = 93 then Some (vs @ [v], r1)
               else if c = 44 then array_loop n (skip_ws r1) (vs @ [v])
               else None))"
| "object_loop 0 s pairs = None"
| "object_loop (Suc n) s pairs =
     (case scanstring s of
        None \<Rightarrow> None
      | Some (key, r) \<Rightarrow>
          (case skip_ws r of
             [] \<Rightarrow> None
           | c # r1 \<Rightarrow>
               if c \<noteq> 58 then None
               else
                 (case scan_once n (skip_ws r1) of
                    None \<Rightarrow> None
                  | Some (v, r2) \<Rightarrow>
                      (case skip_ws r2 of
                         [] \<Rightarrow> None
                       | d # r3 \<Rightarrow>
                           if d = 125 then Some (pairs @ [(key, v)], r3)
                           else if d = 44 then
                             (case skip_ws r3 of
                                [] \<Rightarrow> None
                              | q # r4 \<Rightarrow>
                                  if q = 34 then object_loop n r4 (pairs @ [(key, v)])
                                  else None)
                           else None))))"

declare scan_once.simps [simp del] array_loop.simps [simp del] object_loop.simps [simp del]

text \<open>
  \<^verbatim>\<open>json.loads(s)\<close>: leading whitespace is skipped, one value is read, and nothing but
  whitespace may follow. The fuel is the length of the text.
\<close>

definition json_loads :: "pystr \<Rightarrow> pyvalue option" where
  "json_loads s =
     (case scan_once (length s) (skip_ws s) of
        None \<Rightarrow> None
      | Some (obj, r) \<Rightarrow> if skip_ws r = [] then Some obj else None)"

section \<open>Properties of the filename allocator\<close>

subsection \<open>Decimal rendering of the counter\<close>

lemma digits_nonempty: "digits n \<noteq> []"
  by (subst digits.simps) simp

lemma digits_inj: "digits n = digits m \<Longrightarrow> n = m"
proof (induction n arbitrary: m rule: digits.induct)
  case (1 n)
  show ?case
  proof (cases "n < 10")
    case True
    show ?thesis
    proof (cases "m < 10")
      case True
      with \<open>n < 10\<close> "1.prems" show ?thesis
        by (simp add: digits.simps [of n] digits.simps [of m])
    next
      case False
      with \<open>n < 10\<close> "1.prems" digits_nonempty [of "m div 10"] show ?thesis
        by (simp add: digits.simps [of n] digits.simps [of m])
    qed
  next
    case False
    show ?thesis
    proof (cases "m < 10")
      case True
      with \<open>\<not> n < 10\<close> "1.prems" digits_nonempty [of "n div 10"] show ?thesis
        by (simp add: digits.simps [of n] digits.simps [of m])
    next
      case mf: False
      with False "1.prems" have eq: "digits (n div 10) = digits (m div 10)" "n mod 10 = m mod 10"
        by (simp_all add: digits.simps [of n] digits.simps [of m])
      from "1.IH" [OF False eq(1)] have "n div 10 = m div 10" .
      with eq(2) show ?thesis
        by (metis div_mult_mod_eq)
    qed
  qed
qed

lemma str_inj: "0 \<le> i \<Longrightarrow> 0 \<le> j \<Longrightarrow> str i = str j \<Longrightarrow> i = j"
  by (auto simp: str_def dest: digits_inj)

subsection \<open>The probing loop\<close>

lemma loop_returns_candidate:
  assumes "c \<le> k"
    and "\<not> ex (b @ lit ''_'' @ str k @ e)"
    and "\<forall>j. c \<le> j \<and> j < k \<longrightarrow> ex (b @ lit ''_'' @ str j @ e)"
  shows "get_unique_filename_loop ex b e c = Some (b @ lit ''_'' @ str k @ e)"
  using assms
proof (induction "nat (k - c)" arbitrary: c)
  case 0
  then have "c = k" by simp
  with "0.prems"(2) show ?case
    by (subst get_unique_filename_loop.simps) simp
next
  case (Suc n)
  then have lt: "c < k" by simp
  with Suc.prems(3) have ex: "ex (b @ lit ''_'' @ str c @ e)" by simp
  have "get_unique_filename_loop ex b e (c + 1) = Some (b @ lit ''_'' @ str k @ e)"
  proof (rule Suc.hyps(1))
    show "n = nat (k - (c + 1))" using Suc.hyps(2) by simp
    show "c + 1 \<le> k" using lt by simp
    show "\<not> ex (b @ lit ''_'' @ str k @ e)" by (rule Suc.prems(2))
    show "\<forall>j. c + 1 \<le> j \<and> j < k \<longrightarrow> ex (b @ lit ''_'' @ str j @ e)"
      using Suc.prems(3) by simp
  qed
  with ex show ?case
    by (subst get_unique_filename_loop.simps) simp
qed

lemma loop_result_unused:
  assumes "get_unique_filename_loop ex b e c = Some p"
  shows "\<not> ex p"
proof (rule get_unique_filename_loop.raw_induct
    [where P = "\<lambda>ex b e c p. \<not> ex p", OF _ assms])
  fix f :: "(pystr \<Rightarrow> bool) \<Rightarrow> pystr \<Rightarrow> pystr \<Rightarrow> int \<Rightarrow> pystr option"
    and ex b e c p
  assume IH: "\<And>ex b e c p. f ex b e c = Some p \<Longrightarrow> \<not> ex p"
    and eq: "(let new_filename = b @ lit ''_'' @ str c @ e
              in if \<not> ex new_filename then Some new_filename else f ex b e (c + 1)) = Some p"
  show "\<not> ex p"
  proof (cases "ex (b @ lit ''_'' @ str c @ e)")
    case False
    with eq show ?thesis by (simp add: Let_def)
  next
    case True
    with eq have "f ex b e (c + 1) = Some p" by (simp add: Let_def)
    then show ?thesis by (rule IH)
  qed
qed

lemma loop_result_shape:
  assumes "get_unique_filename_loop ex b e c = Some p"
  shows "\<exists>k\<ge>c. p = b @ lit ''_'' @ str k @ e \<and>
           (\<forall>j. c \<le> j \<and> j < k \<longrightarrow> ex (b @ lit ''_'' @ str j @ e))"
proof (rule get_unique_filename_loop.raw_induct
    [where P = "\<lambda>ex b e c p. \<exists>k\<ge>c. p = b @ lit ''_'' @ str k @ e \<and>
           (\<forall>j. c \<le> j \<and> j < k \<longrightarrow> ex (b @ lit ''_'' @ str j @ e))", OF _ assms])
  fix f :: "(pystr \<Rightarrow> bool) \<Rightarrow> pystr \<Rightarrow> pystr \<Rightarrow> int \<Rightarrow> pystr option"
    and ex b e c p
  assume IH: "\<And>ex b e c p. f ex b e c = Some p \<Longrightarrow>
      \<exists>k\<ge>c. p = b @ lit ''_'' @ str k @ e \<and>
           (\<forall>j. c \<le> j \<and> j < k \<longrightarrow> ex (b @ lit ''_'' @ str j @ e))"
    and eq: "(let new_filename = b @ lit ''_'' @ str c @ e
              in if \<not> ex new_filename then Some new_filename else f ex b e (c + 1)) = Some p"
  show "\<exists>k\<ge>c. p = b @ lit ''_'' @ str k @ e \<and>
           (\<forall>j. c \<le> j \<and> j < k \<longrightarrow> ex (b @ lit ''_'' @ str j @ e))"
  proof (cases "ex (b @ lit ''_'' @ str c @ e)")
    case False
    with eq have "p = b @ lit ''_'' @ str c @ e" by (simp add: Let_def)
    then show ?thesis by auto
  next
    case True
    with eq have "f ex b e (c + 1) = Some p" by (simp add: Let_def)
    from IH [OF this] obtain k where k: "c + 1 \<le> k" "p = b @ lit ''_'' @ str k @ e"
      "\<forall>j. c + 1 \<le> j \<and> j < k \<longrightarrow> ex (b @ lit ''_'' @ str j @ e)" by blast
    have "\<forall>j. c \<le> j \<and> j < k \<longrightarrow> ex (b @ lit ''_'' @ str j @ e)"
    proof (intro allI impI)
      fix j assume "c \<le> j \<and> j < k"
      then have "j = c \<or> (c + 1 \<le> j \<and> j < k)" by arith
      with True k(3) show "ex (b @ lit ''_'' @ str j @ e)" by auto
    qed
    with k show ?thesis by (intro exI [of _ k]) simp
  qed
qed

lemma loop_terminates:
  assumes "finite {k. c \<le> k \<and> ex (b @ lit ''_'' @ str k @ e)}"
  shows "\<exists>p. get_unique_filename_loop ex b e c = Some p"
proof -
  let ?S = "{k. c \<le> k \<and> ex (b @ lit ''_'' @ str k @ e)}"
  have "\<exists>n. \<not> ex (b @ lit ''_'' @ str (c + int n) @ e)"
  proof (rule ccontr)
    assume "\<not> ?thesis"
    then have all: "\<And>n. ex (b @ lit ''_'' @ str (c + int n) @ e)" by simp
    have "(\<lambda>n. c + int n) ` UNIV \<subseteq> ?S" using all by auto
    with assms have "finite ((\<lambda>n. c + int n) ` (UNIV :: nat set))" by (rule rev_finite_subset)
    moreover have "inj (\<lambda>n. c + int n)" by (simp add: inj_on_def)
    ultimately have "finite (UNIV :: nat set)" by (simp add: finite_image_iff)
    then show False by simp
  qed
  then obtain n where n: "\<not> ex (b @ lit ''_'' @ str (c + int n) @ e)"
    and least: "\<And>m. m < n \<Longrightarrow> ex (b @ lit ''_'' @ str (c + int m) @ e)"
    using exists_least_iff [of "\<lambda>n. \<not> ex (b @ lit ''_'' @ str (c + int n) @ e)"] by auto
  have "\<forall>j. c \<le> j \<and> j < c + int n \<longrightarrow> ex (b @ lit ''_'' @ str j @ e)"
  proof (intro allI impI)
    fix j assume j: "c \<le> j \<and> j < c + int n"
    then have "nat (j - c) < n" "j = c + int (nat (j - c))" by auto
    with least [of "nat (j - c)"] show "ex (b @ lit ''_'' @ str j @ e)" by simp
  qed
  with n have "get_unique_filename_loop ex b e c = Some (b @ lit ''_'' @ str (c + int n) @ e)"
    by (intro loop_returns_candidate) auto
  then show ?thesis by blast
qed

subsection \<open>What the allocator returns\<close>

text \<open>
  Claim C2. For every base name and extension, the allocator returns \<^verbatim>\<open>base.ext\<close> when
  no file of that name exists; otherwise it returns \<^verbatim>\<open>base_k.ext\<close> for the smallest
  counter \<open>k \<ge> 1\<close> such that \<^verbatim>\<open>base_k.ext\<close> does not exist. Every value it returns
  names a path that does not exist when it is probed, and is of one of these two forms.
\<close>

theorem get_unique_filename_first_unused:
  "(\<not> ex (b @ e) \<longrightarrow> get_unique_filename ex b e = Some (b @ e)) \<and>
   (ex (b @ e) \<and> 1 \<le> k \<and> \<not> ex (b @ lit ''_'' @ str k @ e) \<and>
      (\<forall>j. 1 \<le> j \<and> j < k \<longrightarrow> ex (b @ lit ''_'' @ str j @ e))
      \<longrightarrow> get_unique_filename ex b e = Some (b @ lit ''_'' @ str k @ e)) \<and>
   (get_unique_filename ex b e = Some p \<longrightarrow>
      \<not> ex p \<and>
      (if \<not> ex (b @ e) then p = b @ e
       else \<exists>k\<ge>1. p = b @ lit ''_'' @ str k @ e \<and>
              (\<forall>j. 1 \<le> j \<and> j < k \<longrightarrow> ex (b @ lit ''_'' @ str j @ e))))"
proof (intro conjI impI)
  assume "\<not> ex (b @ e)"
  then show "get_unique_filename ex b e = Some (b @ e)"
    by (simp add: get_unique_filename_def)
next
  assume h: "ex (b @ e) \<and> 1 \<le> k \<and> \<not> ex (b @ lit ''_'' @ str k @ e) \<and>
      (\<forall>j. 1 \<le> j \<and> j < k \<longrightarrow> ex (b @ lit ''_'' @ str j @ e))"
  then have "get_unique_filename_loop ex b e 1 = Some (b @ lit ''_'' @ str k @ e)"
    by (intro loop_returns_candidate) auto
  with h show "get_unique_filename ex b e = Some (b @ lit ''_'' @ str k @ e)"
    by (simp add: get_unique_filename_def)
next
  assume r: "get_unique_filename ex b e = Some p"
  show "\<not> ex p"
  proof (cases "ex (b @ e)")
    case False
    with r show ?thesis by (simp add: get_unique_filename_def)
  next
    case True
    with r have "get_unique_filename_loop ex b e 1 = Some p"
      by (simp add: get_unique_filename_def)
    then show ?thesis by (rule loop_result_unused)
  qed
next
  assume r: "get_unique_filename ex b e = Some p"
  show "if \<not> ex (b @ e) then p = b @ e
       else \<exists>k\<ge>1. p = b @ lit ''_'' @ str k @ e \<and>
              (\<forall>j. 1 \<le> j \<and> j < k \<longrightarrow> ex (b @ lit ''_'' @ str j @ e))"
  proof (cases "ex (b @ e)")
    case False
    with r show ?thesis by (simp add: get_unique_filename_def)
  next
    case True
    with r have "get_unique_filename_loop ex b e 1 = Some p"
      by (simp add: get_unique_filename_def)
    from loop_result_shape [OF this] True show ?thesis by simp
  qed
qed

theorem get_unique_filename_first_unused_witness:
  "(\<lambda>p. p = lit ''nft_data.json'' \<or> p = lit ''nft_data_1.json'') (lit ''nft_data'' @ lit ''.json'') \<and>
   \<not> (\<lambda>p. p = lit ''nft_data.json'' \<or> p = lit ''nft_data_1.json'')
        (lit ''nft_data'' @ lit ''_'' @ str 2 @ lit ''.json'') \<and>
   get_unique_filename (\<lambda>p. p = lit ''nft_data.json'' \<or> p = lit ''nft_data_1.json'')
     (lit ''nft_data'') (lit ''.json'') = Some (lit ''nft_data_2.json'')"
proof -
  let ?ex = "\<lambda>p. p = lit ''nft_data.json'' \<or> p = lit ''nft_data_1.json''"
  have two: "str 2 = lit ''2''" and one: "str 1 = lit ''1''"
    by (simp_all add: str_def digits.simps lit_def)
  have a: "?ex (lit ''nft_data'' @ lit ''.json'')"
    by (simp add: lit_def)
  have b: "\<not> ?ex (lit ''nft_data'' @ lit ''_'' @ str 2 @ lit ''.json'')"
    by (simp add: two) (simp add: lit_def)
  have c: "\<forall>j. 1 \<le> j \<and> j < 2 \<longrightarrow> ?ex (lit ''nft_data'' @ lit ''_'' @ str j @ lit ''.json'')"
  proof (intro allI impI)
    fix j :: int
    assume "1 \<le> j \<and> j < 2"
    then have "j = 1" by simp
    then show "?ex (lit ''nft_data'' @ lit ''_'' @ str j @ lit ''.json'')"
      by (simp add: one) (simp add: lit_def)
  qed
  have e: "(1::int) \<le> 2" by simp
  have d: "lit ''nft_data'' @ lit ''_'' @ str 2 @ lit ''.json'' = lit ''nft_data_2.json''"
    by (simp add: two) (simp add: lit_def)
  from get_unique_filename_first_unused
    [of ?ex "lit ''nft_data''" "lit ''.json''" 2 "lit ''nft_data_2.json''"] a b c e
  have "get_unique_filename ?ex (lit ''nft_data'') (lit ''.json'')
          = Some (lit ''nft_data'' @ lit ''_'' @ str 2 @ lit ''.json'')"
    by blast
  with a b d show ?thesis by simp
qed

subsection \<open>Termination of the allocator\<close>

text \<open>
  Claim C9. The allocator has no error conditions: its only results are a returned path
  or a loop that never ends. It terminates in every state of the file system in which
  only finitely many of the probed paths \<^verbatim>\<open>base_k.ext\<close> exist.
\<close>

theorem get_unique_filename_terminates:
  "finite {k. 1 \<le> k \<and> ex (b @ lit ''_'' @ str k @ e)} \<Longrightarrow>
     \<exists>p. get_unique_filename ex b e = Some p"
proof -
  assume "finite {k. 1 \<le> k \<and> ex (b @ lit ''_'' @ str k @ e)}"
  then have "\<exists>p. get_unique_filename_loop ex b e 1 = Some p"
    by (rule loop_terminates)
  then show ?thesis
    by (simp add: get_unique_filename_def)
qed

theorem get_unique_filename_terminates_witness:
  "finite {k. 1 \<le> k \<and> (\<lambda>p. p = lit ''nft_data.json'')
                          (lit ''nft_data'' @ lit ''_'' @ str k @ lit ''.json'')} \<and>
   (\<exists>p. get_unique_filename (\<lambda>p. p = lit ''nft_data.json'')
          (lit ''nft_data'') (lit ''.json'') = Some p)"
proof -
  have fin: "finite {k. 1 \<le> k \<and> (\<lambda>p. p = lit ''nft_data.json'')
                          (lit ''nft_data'' @ lit ''_'' @ str k @ lit ''.json'')}"
    by (simp add: lit_def)
  from get_unique_filename_terminates [OF fin] fin show ?thesis by blast
qed

subsection \<open>Repeated allocation\<close>

lemma candidate_inj:
  assumes "candidate b e j = candidate b e k"
  shows "j = k"
proof -
  have ne: "b @ e \<noteq> b @ lit ''_'' @ str i @ e" for i
  proof
    assume "b @ e = b @ lit ''_'' @ str i @ e"
    then have "length e = length (lit ''_'' @ str i @ e)" by simp
    then show False by (simp add: lit_def)
  qed
  show ?thesis
  proof (cases "j = 0")
    case True
    with assms ne [of "int k"] show ?thesis
      by (auto simp: candidate_def split: if_splits)
  next
    case False
    show ?thesis
    proof (cases "k = 0")
      case True
      with assms False ne [of "int j"] show ?thesis
        by (auto simp: candidate_def split: if_splits)
    next
      case kf: False
      with False assms have "str (int j) = str (int k)"
        by (simp add: candidate_def)
      then have "int j = int k" by (intro str_inj) simp_all
      then show ?thesis by simp
    qed
  qed
qed

lemma get_unique_filename_candidate:
  assumes "\<forall>k<m. ex (candidate b e k)" and "\<not> ex (candidate b e m)"
  shows "get_unique_filename ex b e = Some (candidate b e m)"
proof (cases "m = 0")
  case True
  with assms(2) show ?thesis
    by (simp add: get_unique_filename_def candidate_def)
next
  case False
  from assms(1) False have base: "ex (b @ e)"
    by (auto simp: candidate_def dest: spec [of _ 0])
  have "get_unique_filename_loop ex b e 1 = Some (b @ lit ''_'' @ str (int m) @ e)"
  proof (rule loop_returns_candidate)
    show "1 \<le> int m" using False by simp
    show "\<not> ex (b @ lit ''_'' @ str (int m) @ e)"
      using assms(2) False by (simp add: candidate_def)
    show "\<forall>j. 1 \<le> j \<and> j < int m \<longrightarrow> ex (b @ lit ''_'' @ str j @ e)"
    proof (intro allI impI)
      fix j :: int
      assume j: "1 \<le> j \<and> j < int m"
      then have "nat j < m" "nat j \<noteq> 0" "int (nat j) = j" by auto
      with assms(1) have "ex (candidate b e (nat j))" by blast
      with \<open>nat j \<noteq> 0\<close> \<open>int (nat j) = j\<close> show "ex (b @ lit ''_'' @ str j @ e)"
        by (simp add: candidate_def)
    qed
  qed
  with base False show ?thesis
    by (simp add: get_unique_filename_def candidate_def)
qed

lemma allocate_and_create_from:
  assumes "\<forall>k<m. os_path_exists fs (candidate b e k)"
    and "\<forall>k. m \<le> k \<and> k < m + n \<longrightarrow> \<not> os_path_exists fs (candidate b e k)"
  shows "allocate_and_create fs b e c n = Some (map (candidate b e) [m..<m + n])"
  using assms
proof (induction n arbitrary: fs m)
  case 0
  show ?case by simp
next
  case (Suc n)
  from Suc.prems(2) have free: "\<not> os_path_exists fs (candidate b e m)" by simp
  with Suc.prems(1) have g: "get_unique_filename (os_path_exists fs) b e = Some (candidate b e m)"
    by (intro get_unique_filename_candidate)
  let ?fs = "fmupd (candidate b e m) (RegularFile c) fs"
  have "allocate_and_create ?fs b e c n = Some (map (candidate b e) [Suc m..<Suc m + n])"
  proof (rule Suc.IH)
    show "\<forall>k<Suc m. os_path_exists ?fs (candidate b e k)"
      using Suc.prems(1) by (auto simp: os_path_exists_def less_Suc_eq)
    show "\<forall>k. Suc m \<le> k \<and> k < Suc m + n \<longrightarrow> \<not> os_path_exists ?fs (candidate b e k)"
    proof (intro allI impI)
      fix k assume k: "Suc m \<le> k \<and> k < Suc m + n"
      then have "candidate b e m \<noteq> candidate b e k"
        using candidate_inj [of b e m k] by auto
      moreover from k Suc.prems(2) have "\<not> os_path_exists fs (candidate b e k)" by simp
      ultimately show "\<not> os_path_exists ?fs (candidate b e k)"
        by (simp add: os_path_exists_def)
    qed
  qed
  moreover have "[m..<m + Suc n] = m # [Suc m..<Suc m + n]"
    by (simp add: upt_conv_Cons del: upt_Suc)
  ultimately show ?case using g
    by (simp del: upt_Suc)
qed

text \<open>
  Claim C8. Starting from a state in which none of \<^verbatim>\<open>base.ext\<close>, \<^verbatim>\<open>base_1.ext\<close>, ...
  exists, calling the allocator \<open>n\<close> times and creating each returned file before the
  next call yields exactly \<^verbatim>\<open>base.ext, base_1.ext, ..., base_(n-1).ext\<close>, in this order,
  and these \<open>n\<close> names are distinct.
\<close>

theorem allocate_and_create_sequence:
  assumes "\<forall>k<n. \<not> os_path_exists fs (candidate b e k)"
  shows "allocate_and_create fs b e c n = Some (map (candidate b e) [0..<n]) \<and>
         distinct (map (candidate b e) [0..<n])"
proof
  from assms show "allocate_and_create fs b e c n = Some (map (candidate b e) [0..<n])"
    using allocate_and_create_from [of 0 fs b e n c] by simp
  show "distinct (map (candidate b e) [0..<n])"
    by (simp add: distinct_map inj_on_def) (blast dest: candidate_inj)
qed

theorem allocate_and_create_sequence_witness:
  "allocate_and_create fmempty (lit ''nft_collection'') (lit ''.json'') [] 3 =
     Some [lit ''nft_collection.json'', lit ''nft_collection_1.json'',
           lit ''nft_collection_2.json''] \<and>
   distinct [lit ''nft_collection.json'', lit ''nft_collection_1.json'',
           lit ''nft_collection_2.json'']"
  using allocate_and_create_sequence [of 3 fmempty "lit ''nft_collection''" "lit ''.json''" "[]"]
  by (simp add: os_path_exists_def upt_rec candidate_def str_def digits.simps)
     (simp add: lit_def)

section \<open>Properties of the extraction loop\<close>

subsection \<open>The loop as a whole\<close>

lemma process_item_append: "process_item item acc = acc @ process_item item []"
  by (simp add: process_item_def split: option.split)

lemma fold_process_item_append:
  "fold process_item items acc = acc @ fold process_item items []"
proof (induction items arbitrary: acc)
  case Nil
  show ?case by simp
next
  case (Cons item items)
  have "fold process_item (item # items) acc = fold process_item items (process_item item acc)"
    by simp
  also have "\<dots> = process_item item acc @ fold process_item items []"
    by (rule Cons.IH)
  also have "\<dots> = acc @ process_item item [] @ fold process_item items []"
    by (subst process_item_append) simp
  also have "process_item item [] @ fold process_item items [] =
      fold process_item items (process_item item [])"
    by (rule Cons.IH [symmetric])
  finally show ?case by simp
qed

lemma fold_process_item_Cons:
  "fold process_item (item # items) [] = process_item item [] @ fold process_item items []"
  using fold_process_item_append [of items "process_item item []"] by simp

lemma fold_process_item_concat:
  "fold process_item items [] = concat (map (\<lambda>item. process_item item []) items)"
proof (induction items)
  case Nil
  show ?case by simp
next
  case (Cons item items)
  show ?case
    unfolding fold_process_item_Cons Cons.IH by simp
qed


lemma emitted_record:
  "r \<in> set (fold process_item items []) \<Longrightarrow>
     \<exists>item\<in>set items. \<exists>u. image_url item = Some u \<and> u \<noteq> [] \<and>
        r = PyDict [(lit ''name'', PyStr (name item)), (lit ''price'', PyStr (price item)),
                    (lit ''image_url'', PyStr u)]"
  by (auto simp: fold_process_item_concat process_item_def split: option.splits if_splits)

subsection \<open>The filter\<close>

text \<open>
  Claim C1, as the specification states it, fails: a container whose image element has
  the attribute \<^verbatim>\<open>src=""\<close> has an \<open>image_url\<close> that is not \<^verbatim>\<open>None\<close>, and yet no
  record is appended for it.
\<close>

theorem process_item_nonnull_counterexample:
  "image_url (Tag (lit ''div'') [lit ''NftItemContainer''] Map.empty
                [Tag (lit ''img'') [lit ''LibraryMedia''] [lit ''src'' \<mapsto> []] []]) \<noteq> None \<and>
   process_item (Tag (lit ''div'') [lit ''NftItemContainer''] Map.empty
                [Tag (lit ''img'') [lit ''LibraryMedia''] [lit ''src'' \<mapsto> []] []]) [] = []"
  by (simp add: process_item_def image_url_def find_def find_all_def lit_def)

text \<open>
  Claim C1, amended. For every selected container the loop appends the record triple
  if and only if \<open>image_url\<close> is neither \<^verbatim>\<open>None\<close> nor the empty string; this is the
  only filter. A container without an image element is excluded whatever its other
  fields are, and every record of the Collection has a non-empty \<open>image_url\<close>.
\<close>

theorem process_item_filter:
  "(process_item item acc \<noteq> acc \<longleftrightarrow> (\<exists>u. image_url item = Some u \<and> u \<noteq> [])) \<and>
   (image_url item = Some u \<and> u \<noteq> [] \<longrightarrow>
      process_item item acc =
        acc @ [PyDict [(lit ''name'', PyStr (name item)), (lit ''price'', PyStr (price item)),
                       (lit ''image_url'', PyStr u)]]) \<and>
   (find item (lit ''img'') (lit ''LibraryMedia'') = None \<longrightarrow> process_item item acc = acc) \<and>
   (\<forall>r \<in> set (fold process_item items []).
      \<exists>n p v. v \<noteq> [] \<and>
        r = PyDict [(lit ''name'', PyStr n), (lit ''price'', PyStr p),
                    (lit ''image_url'', PyStr v)])"
proof (intro conjI)
  show "process_item item acc \<noteq> acc \<longleftrightarrow> (\<exists>u. image_url item = Some u \<and> u \<noteq> [])"
    by (simp add: process_item_def split: option.split)
  show "image_url item = Some u \<and> u \<noteq> [] \<longrightarrow>
      process_item item acc =
        acc @ [PyDict [(lit ''name'', PyStr (name item)), (lit ''price'', PyStr (price item)),
                       (lit ''image_url'', PyStr u)]]"
    by (simp add: process_item_def)
  show "find item (lit ''img'') (lit ''LibraryMedia'') = None \<longrightarrow> process_item item acc = acc"
    by (simp add: process_item_def image_url_def)
  show "\<forall>r \<in> set (fold process_item items []).
      \<exists>n p v. v \<noteq> [] \<and>
        r = PyDict [(lit ''name'', PyStr n), (lit ''price'', PyStr p),
                    (lit ''image_url'', PyStr v)]"
    using emitted_record by blast
qed

theorem process_item_filter_witness:
  "process_item (Tag (lit ''div'') [lit ''NftItemContainer''] Map.empty
      [Tag (lit ''img'') [lit ''LibraryMedia''] [lit ''src'' \<mapsto> lit ''http://x/1.png''] []]) [] =
     [PyDict [(lit ''name'', PyStr (lit ''Unknown Name'')), (lit ''price'', PyStr (lit ''Not Listed'')),
              (lit ''image_url'', PyStr (lit ''http://x/1.png''))]] \<and>
   process_item (Tag (lit ''div'') [lit ''NftItemContainer''] Map.empty
      [Tag (lit ''span'') [lit ''NftItemNameContent__name''] Map.empty
         [NavigableString (lit ''Cool Cat'')]]) [] = []"
proof -
  let ?a = "Tag (lit ''div'') [lit ''NftItemContainer''] Map.empty
      [Tag (lit ''img'') [lit ''LibraryMedia''] [lit ''src'' \<mapsto> lit ''http://x/1.png''] []]"
  let ?b = "Tag (lit ''div'') [lit ''NftItemContainer''] Map.empty
      [Tag (lit ''span'') [lit ''NftItemNameContent__name''] Map.empty
         [NavigableString (lit ''Cool Cat'')]]"
  have url: "image_url ?a = Some (lit ''http://x/1.png'') \<and> lit ''http://x/1.png'' \<noteq> []"
    by (simp add: image_url_def find_def find_all_def lit_def)
  have nm: "name ?a = lit ''Unknown Name''" and pr: "price ?a = lit ''Not Listed''"
    by (simp_all add: name_def price_def find_def find_all_def lit_def)
  have noimg: "find ?b (lit ''img'') (lit ''LibraryMedia'') = None"
    by (simp add: find_def find_all_def lit_def)
  from process_item_filter [of ?a "[]" "lit ''http://x/1.png''"] url nm pr
  have "process_item ?a [] =
     [PyDict [(lit ''name'', PyStr (lit ''Unknown Name'')), (lit ''price'', PyStr (lit ''Not Listed'')),
              (lit ''image_url'', PyStr (lit ''http://x/1.png''))]]"
    by simp
  moreover from process_item_filter [of ?b "[]"] noimg have "process_item ?b [] = []"
    by blast
  ultimately show ?thesis by simp
qed

text \<open>
  Claim C10. When the first image element of a container has no \<^verbatim>\<open>src\<close> attribute,
  or an empty one, \<open>image_url\<close> is \<^verbatim>\<open>None\<close> or the empty string, and the container is
  left out of the Collection, exactly as a container without an image element is.
\<close>

theorem process_item_empty_src:
  "find item (lit ''img'') (lit ''LibraryMedia'') = Some img_tag \<Longrightarrow>
   tag_get img_tag (lit ''src'') = None \<or> tag_get img_tag (lit ''src'') = Some [] \<Longrightarrow>
     (image_url item = None \<or> image_url item = Some []) \<and>
     process_item item acc = acc \<and>
     fold process_item (xs @ item # ys) [] = fold process_item (xs @ ys) []"
proof -
  assume f: "find item (lit ''img'') (lit ''LibraryMedia'') = Some img_tag"
    and s: "tag_get img_tag (lit ''src'') = None \<or> tag_get img_tag (lit ''src'') = Some []"
  from f s have u: "image_url item = None \<or> image_url item = Some []"
    by (simp add: image_url_def)
  then have p: "process_item item acc = acc" for acc
    by (auto simp: process_item_def)
  have "fold process_item (xs @ item # ys) [] = fold process_item (xs @ ys) []"
    unfolding fold_process_item_concat by (simp add: p)
  with u p show ?thesis by simp
qed

theorem process_item_empty_src_witness:
  "process_item (Tag (lit ''div'') [lit ''NftItemContainer''] Map.empty
      [Tag (lit ''img'') [lit ''LibraryMedia''] [lit ''alt'' \<mapsto> lit ''cat''] [],
       Tag (lit ''span'') [lit ''NftItemNameContent__name''] Map.empty
         [NavigableString (lit ''Cool Cat'')]]) [] = []"
proof -
  let ?img = "Tag (lit ''img'') [lit ''LibraryMedia''] [lit ''alt'' \<mapsto> lit ''cat''] []"
  let ?item = "Tag (lit ''div'') [lit ''NftItemContainer''] Map.empty
      [?img, Tag (lit ''span'') [lit ''NftItemNameContent__name''] Map.empty
         [NavigableString (lit ''Cool Cat'')]]"
  have f: "find ?item (lit ''img'') (lit ''LibraryMedia'') = Some ?img"
    by (simp add: find_def find_all_def lit_def)
  have s: "tag_get ?img (lit ''src'') = None \<or> tag_get ?img (lit ''src'') = Some []"
    by (simp add: lit_def)
  from process_item_empty_src [OF f s, of "[]"] show ?thesis by simp
qed

subsection \<open>Default values\<close>



subsection \<open>Selection and order of the Collection\<close>





section \<open>The JSON text\<close>

subsection \<open>Layout\<close>

lemma escape_char_plain: "32 \<le> c \<Longrightarrow> c \<noteq> 34 \<Longrightarrow> c \<noteq> 92 \<Longrightarrow> escape_char c = [c]"
  by (simp add: escape_char_def)

lemma py_encode_basestring_plain:
  assumes "\<forall>c\<in>set s. 32 \<le> c \<and> c \<noteq> 34 \<and> c \<noteq> 92"
  shows "py_encode_basestring s = [34] @ s @ [34]"
proof -
  from assms have "concat (map escape_char s) = s"
    by (induction s) (simp_all add: escape_char_plain)
  then show ?thesis by (simp add: py_encode_basestring_def)
qed

lemma newline_indent_1: "newline_indent (Suc 0) = [10] @ replicate 4 32"
  and newline_indent_2: "newline_indent (Suc (Suc 0)) = [10] @ replicate 8 32"
  and newline_indent_0: "newline_indent 0 = [10]"
  by (simp_all add: newline_indent_def)

lemma iterencode_record:
  "iterencode (Suc 0) (PyDict [(lit ''name'', PyStr n), (lit ''price'', PyStr p),
                         (lit ''image_url'', PyStr u)]) =
     lit ''{'' @ [10] @ replicate 8 32 @
     py_encode_basestring (lit ''name'') @ lit '': '' @ py_encode_basestring n @
     lit '','' @ [10] @ replicate 8 32 @
     py_encode_basestring (lit ''price'') @ lit '': '' @ py_encode_basestring p @
     lit '','' @ [10] @ replicate 8 32 @
     py_encode_basestring (lit ''image_url'') @ lit '': '' @ py_encode_basestring u @
     [10] @ replicate 4 32 @ lit ''}''"
  by (simp add: newline_indent_1 newline_indent_2 del: replicate.simps replicate_Suc)

lemma json_dump_list:
  "lst \<noteq> [] \<Longrightarrow>
     json_dump (PyList lst) =
       lit ''['' @ [10] @ replicate 4 32 @
       join (lit '','' @ [10] @ replicate 4 32) (map (iterencode (Suc 0)) lst) @
       [10] @ lit '']''"
  by (simp add: json_dump_def newline_indent_1 newline_indent_0 del: replicate.simps replicate_Suc)

subsection \<open>The chunks of the encoder\<close>

lemma join_concat: "join sep (x # xs) = x @ concat (map (\<lambda>y. sep @ y) xs)"
  by (induction xs arbitrary: x) simp_all

lemma iterencode_chunks_concat: "concat (iterencode_chunks level v) = iterencode level v"
proof (induction v arbitrary: level)
  case (PyStr s)
  show ?case by simp
next
  case (PyList lst)
  show ?case
  proof (cases lst)
    case Nil
    then show ?thesis by simp
  next
    case (Cons v vs)
    have item: "concat (case x of
          PyStr s \<Rightarrow> [buf @ py_encode_basestring s]
        | _ \<Rightarrow> buf # iterencode_chunks (level + 1) x) = buf @ iterencode (level + 1) x"
      if "x \<in> set lst" for x buf
      using PyList.IH [OF that, of "level + 1"] by (cases x) simp_all
    have head: "concat (case v of
          PyStr s \<Rightarrow> [lit ''['' @ newline_indent (level + 1) @ py_encode_basestring s]
        | _ \<Rightarrow> (lit ''['' @ newline_indent (level + 1)) # iterencode_chunks (level + 1) v) =
        (lit ''['' @ newline_indent (level + 1)) @ iterencode (level + 1) v"
      using item [of v "lit ''['' @ newline_indent (level + 1)"] Cons
      by (cases v) simp_all
    have tail: "concat (concat (map (\<lambda>x. case x of
          PyStr s \<Rightarrow> [lit '','' @ newline_indent (level + 1) @ py_encode_basestring s]
        | _ \<Rightarrow> (lit '','' @ newline_indent (level + 1)) # iterencode_chunks (level + 1) x) vs)) =
        concat (map (\<lambda>y. (lit '','' @ newline_indent (level + 1)) @ y)
          (map (iterencode (level + 1)) vs))"
    proof -
      have "concat (case x of
          PyStr s \<Rightarrow> [lit '','' @ newline_indent (level + 1) @ py_encode_basestring s]
        | _ \<Rightarrow> (lit '','' @ newline_indent (level + 1)) # iterencode_chunks (level + 1) x) =
        (lit '','' @ newline_indent (level + 1)) @ iterencode (level + 1) x"
        if "x \<in> set vs" for x
        using item [of x "lit '','' @ newline_indent (level + 1)"] that Cons
        by (cases x) simp_all
      then show ?thesis
        by (induction vs) simp_all
    qed
    have "concat (iterencode_chunks level (PyList (v # vs))) =
        ((lit ''['' @ newline_indent (level + 1)) @ iterencode (level + 1) v) @
        concat (map (\<lambda>y. (lit '','' @ newline_indent (level + 1)) @ y)
          (map (iterencode (level + 1)) vs)) @
        newline_indent level @ lit '']''"
      using head tail by simp
    also have "\<dots> = iterencode level (PyList (v # vs))"
      by (simp add: join_concat)
    finally show ?thesis using Cons by simp
  qed
next
  case (PyDict dct)
  show ?case
  proof (cases dct)
    case Nil
    then show ?thesis by simp
  next
    case (Cons item items)
    have val: "concat (iterencode_chunks (level + 1) (snd x)) = iterencode (level + 1) (snd x)"
      if "x \<in> set dct" for x
    proof -
      obtain k v where x: "x = (k, v)" by (cases x)
      with that have "(k, v) \<in> set dct" by simp
      from PyDict.IH [OF this, of v "level + 1"] x show ?thesis by simp
    qed
    have tail: "concat (concat (map (\<lambda>x. [lit '','' @ newline_indent (level + 1),
          py_encode_basestring (fst x), lit '': ''] @ iterencode_chunks (level + 1) (snd x)) items)) =
        concat (map (\<lambda>y. (lit '','' @ newline_indent (level + 1)) @ y)
          (map (\<lambda>x. py_encode_basestring (fst x) @ lit '': '' @ iterencode (level + 1) (snd x))
             items))"
    proof -
      have "x \<in> set items \<Longrightarrow>
          concat (iterencode_chunks (level + 1) (snd x)) = iterencode (level + 1) (snd x)" for x
        using val [of x] Cons by simp
      then show ?thesis
        by (induction items) simp_all
    qed
    have "concat (iterencode_chunks level (PyDict (item # items))) =
        lit ''{'' @ newline_indent (level + 1) @
        (py_encode_basestring (fst item) @ lit '': '' @ iterencode (level + 1) (snd item)) @
        concat (map (\<lambda>y. (lit '','' @ newline_indent (level + 1)) @ y)
          (map (\<lambda>x. py_encode_basestring (fst x) @ lit '': '' @ iterencode (level + 1) (snd x))
             items)) @
        newline_indent level @ lit ''}''"
      using val [of item] Cons tail by simp
    also have "\<dots> = iterencode level (PyDict (item # items))"
      by (simp add: join_concat)
    finally show ?thesis using Cons by simp
  qed
qed

subsection \<open>Writing the chunks\<close>

lemma utf8_encodable_append [simp]:
  "utf8_encodable (xs @ ys) \<longleftrightarrow> utf8_encodable xs \<and> utf8_encodable ys"
  by (simp add: utf8_encodable_def)

lemma utf8_encodable_Nil [simp]: "utf8_encodable []"
  by (simp add: utf8_encodable_def)

lemma utf8_encodable_concat:
  "utf8_encodable (concat xss) \<longleftrightarrow> list_all utf8_encodable xss"
  by (induction xss) simp_all

lemma fp_write_all_result:
  "fp_write_all chunks written =
     (if list_all utf8_encodable chunks then Inr (written @ concat chunks)
      else Inl (UnicodeEncodeError, written @ concat (takeWhile utf8_encodable chunks)))"
  by (induction chunks arbitrary: written) simp_all

lemma json_dump_file_result:
  assumes "\<not> os_path_exists fs p"
  shows "json_dump_file fs p obj =
     (if utf8_encodable (json_dump obj)
      then Inr (fmupd p (RegularFile (json_dump obj)) fs)
      else Inl (UnicodeEncodeError,
             fmupd p (RegularFile (concat (takeWhile utf8_encodable (iterencode_chunks 0 obj)))) fs))"
proof -
  from assms have "fmlookup fs p = None" by (simp add: os_path_exists_def)
  moreover have "utf8_encodable (json_dump obj) \<longleftrightarrow>
      list_all utf8_encodable (iterencode_chunks 0 obj)"
    unfolding json_dump_def iterencode_chunks_concat [symmetric] by (rule utf8_encodable_concat)
  moreover have "concat (iterencode_chunks 0 obj) = json_dump obj"
    by (simp add: json_dump_def iterencode_chunks_concat)
  ultimately show ?thesis
    by (simp add: json_dump_file_def fp_write_all_result)
qed

subsection \<open>Text that UTF-8 can encode\<close>

lemma utf8_encodable_Cons [simp]:
  "utf8_encodable (c # s) \<longleftrightarrow> \<not> (55296 \<le> c \<and> c \<le> 57343) \<and> utf8_encodable s"
  by (simp add: utf8_encodable_def)

lemma utf8_encodable_replicate [simp]: "utf8_encodable (replicate k 32)"
  by (induction k) simp_all

lemma utf8_encodable_escape_char:
  "utf8_encodable (escape_char c) \<longleftrightarrow> \<not> (55296 \<le> c \<and> c \<le> 57343)"
proof -
  have "hex_digit d < 55296" if "d < 16" for d
    using that by (simp add: hex_digit_def)
  then have "hex_digit (c div 16) < 55296" "hex_digit (c mod 16) < 55296" if "c < 32"
    using that by simp_all
  then show ?thesis
    by (auto simp: escape_char_def)
qed

lemma utf8_encodable_basestring [simp]:
  "utf8_encodable (py_encode_basestring s) \<longleftrightarrow> utf8_encodable s"
proof -
  have "utf8_encodable (concat (map escape_char s)) \<longleftrightarrow> utf8_encodable s"
    by (induction s) (simp_all add: utf8_encodable_escape_char)
  then show ?thesis by (simp add: py_encode_basestring_def)
qed

lemma utf8_encodable_record:
  "utf8_encodable (iterencode (Suc 0) (PyDict [(lit ''name'', PyStr n), (lit ''price'', PyStr p),
                                              (lit ''image_url'', PyStr u)])) \<longleftrightarrow>
     utf8_encodable n \<and> utf8_encodable p \<and> utf8_encodable u"
proof -
  have "utf8_encodable (lit ''{'')" "utf8_encodable (lit ''}'')" "utf8_encodable (lit '','')"
    "utf8_encodable (lit '': '')" "utf8_encodable (lit ''name'')" "utf8_encodable (lit ''price'')"
    "utf8_encodable (lit ''image_url'')"
    by (simp_all add: lit_def)
  then show ?thesis
    unfolding iterencode_record by (simp del: replicate.simps replicate_Suc)
qed

lemma utf8_encodable_join:
  "utf8_encodable sep \<Longrightarrow> \<forall>x\<in>set xs. utf8_encodable x \<Longrightarrow> utf8_encodable (join sep xs)"
  by (induction sep xs rule: join.induct) simp_all

lemma utf8_encodable_collection:
  assumes "\<forall>r\<in>set rs. \<exists>n p u.
      r = PyDict [(lit ''name'', PyStr n), (lit ''price'', PyStr p), (lit ''image_url'', PyStr u)] \<and>
      utf8_encodable n \<and> utf8_encodable p \<and> utf8_encodable u"
  shows "utf8_encodable (json_dump (PyList rs))"
proof (cases "rs = []")
  case True
  then show ?thesis by (simp add: json_dump_def lit_def)
next
  case False
  have "\<forall>x\<in>set (map (iterencode (Suc 0)) rs). utf8_encodable x"
  proof
    fix x assume "x \<in> set (map (iterencode (Suc 0)) rs)"
    then obtain r where r: "r \<in> set rs" "x = iterencode (Suc 0) r" by auto
    with assms obtain n p u where
      "r = PyDict [(lit ''name'', PyStr n), (lit ''price'', PyStr p), (lit ''image_url'', PyStr u)]"
      "utf8_encodable n" "utf8_encodable p" "utf8_encodable u"
      by blast
    with r(2) show "utf8_encodable x" by (simp only: utf8_encodable_record)
  qed
  moreover have "utf8_encodable (lit '','' @ [10] @ replicate 4 32)"
    by (simp add: lit_def del: replicate.simps replicate_Suc)
  ultimately have "utf8_encodable (join (lit '','' @ [10] @ replicate 4 32)
      (map (iterencode (Suc 0)) rs))"
    by (intro utf8_encodable_join) simp_all
  moreover have "utf8_encodable (lit ''['')" "utf8_encodable (lit '']'')"
    by (simp_all add: lit_def)
  ultimately show ?thesis
    unfolding json_dump_list [OF False] by (simp del: replicate.simps replicate_Suc)
qed

section \<open>Reading the written document back\<close>

subsection \<open>Strings\<close>

lemma hex_val_hex_digit: "d < 16 \<Longrightarrow> hex_val (hex_digit d) = Some d"
  by (simp add: hex_val_def hex_digit_def)

lemma decode_uXXXX_control:
  "c < 32 \<Longrightarrow> decode_uXXXX 48 48 (hex_digit (c div 16)) (hex_digit (c mod 16)) = Some c"
proof -
  assume c: "c < 32"
  then have "c div 16 < 16" by simp
  then have a: "hex_val (hex_digit (c div 16)) = Some (c div 16)" by (rule hex_val_hex_digit)
  have b: "hex_val (hex_digit (c mod 16)) = Some (c mod 16)" by (rule hex_val_hex_digit) simp
  have z: "hex_val 48 = Some 0" by (simp add: hex_val_def)
  show ?thesis by (simp add: decode_uXXXX_def a b z)
qed

lemma unicode_escape_low:
  assumes "decode_uXXXX a b c d = Some uni" and "uni < 55296"
  shows "unicode_escape (a # b # c # d # t) = Some (uni, t)"
  using assms by (simp add: unicode_escape_def split: list.split)

lemma scanstring_quote: "scanstring (34 # t) = Some ([], t)"
  by (simp add: scanstring.simps)

lemma scanstring_plain:
  "32 \<le> c \<Longrightarrow> c \<noteq> 34 \<Longrightarrow> c \<noteq> 92 \<Longrightarrow>
     scanstring (c # t) = map_option (\<lambda>(u, r). (c # u, r)) (scanstring t)"
  by (simp add: scanstring.simps)

lemma scanstring_backslash:
  "e \<noteq> 117 \<Longrightarrow> backslash e = Some ch \<Longrightarrow>
     scanstring (92 # e # t) = map_option (\<lambda>(u, r). (ch # u, r)) (scanstring t)"
  by (simp add: scanstring.simps)

lemma scanstring_unicode:
  "unicode_escape t = Some (ch, t') \<Longrightarrow>
     scanstring (92 # 117 # t) = map_option (\<lambda>(u, r). (ch # u, r)) (scanstring t')"
  by (simp add: scanstring.simps)

lemma scanstring_escape_char:
  "scanstring (escape_char c @ t) = map_option (\<lambda>(u, r). (c # u, r)) (scanstring t)"
proof -
  consider "c = 92" | "c = 34" | "c = 8" | "c = 12" | "c = 10" | "c = 13" | "c = 9"
    | "c < 32" "c \<noteq> 8" "c \<noteq> 12" "c \<noteq> 10" "c \<noteq> 13" "c \<noteq> 9"
    | "32 \<le> c" "c \<noteq> 34" "c \<noteq> 92"
    by linarith
  then show ?thesis
  proof cases
    case 1
    then show ?thesis
      by (simp add: escape_char_def scanstring_backslash [of 92 92] backslash_def)
  next
    case 2
    then show ?thesis
      by (simp add: escape_char_def scanstring_backslash [of 34 34] backslash_def)
  next
    case 3
    then show ?thesis
      by (simp add: escape_char_def scanstring_backslash [of 98 8] backslash_def)
  next
    case 4
    then show ?thesis
      by (simp add: escape_char_def scanstring_backslash [of 102 12] backslash_def)
  next
    case 5
    then show ?thesis
      by (simp add: escape_char_def scanstring_backslash [of 110 10] backslash_def)
  next
    case 6
    then show ?thesis
      by (simp add: escape_char_def scanstring_backslash [of 114 13] backslash_def)
  next
    case 7
    then show ?thesis
      by (simp add: escape_char_def scanstring_backslash [of 116 9] backslash_def)
  next
    case 8
    then have e: "escape_char c = [92, 117, 48, 48, hex_digit (c div 16), hex_digit (c mod 16)]"
      by (simp add: escape_char_def)
    from 8 have "c < 55296" by simp
    with decode_uXXXX_control [OF 8(1)]
    have "unicode_escape (48 # 48 # hex_digit (c div 16) # hex_digit (c mod 16) # t) = Some (c, t)"
      by (rule unicode_escape_low)
    then show ?thesis
      unfolding e by (simp add: scanstring_unicode)
  next
    case 9
    then show ?thesis by (simp add: escape_char_def scanstring_plain)
  qed
qed

lemma scanstring_encoded:
  "scanstring (concat (map escape_char s) @ 34 # rest) = Some (s, rest)"
proof (induction s)
  case Nil
  show ?case by (simp add: scanstring_quote)
next
  case (Cons c s)
  have "scanstring (concat (map escape_char (c # s)) @ 34 # rest) =
      scanstring (escape_char c @ (concat (map escape_char s) @ 34 # rest))"
    by simp
  also have "\<dots> = Some (c # s, rest)"
    unfolding scanstring_escape_char Cons.IH by simp
  finally show ?case .
qed

lemma scan_once_string:
  "scan_once (Suc n) (py_encode_basestring s @ rest) = Some (PyStr s, rest)"
  using scanstring_encoded [of s rest]
  by (subst scan_once.simps) (simp add: py_encode_basestring_def)

subsection \<open>Whitespace\<close>

lemma skip_ws_indent: "skip_ws (10 # replicate k 32 @ t) = skip_ws t"
  by (induction k) (simp_all add: skip_ws_def json_ws_def)

lemma skip_ws_blank: "skip_ws (32 # t) = skip_ws t"
  by (simp add: skip_ws_def json_ws_def)

lemma skip_ws_stop: "\<not> json_ws c \<Longrightarrow> skip_ws (c # t) = c # t"
  by (simp add: skip_ws_def)

lemma not_json_ws [simp]:
  "\<not> json_ws 34" "\<not> json_ws 44" "\<not> json_ws 58" "\<not> json_ws 91" "\<not> json_ws 93"
  "\<not> json_ws 123" "\<not> json_ws 125"
  by (simp_all add: json_ws_def)

subsection \<open>Objects\<close>

lemma object_loop_last:
  "object_loop (Suc (Suc n))
     (concat (map escape_char k) @ 34 # lit '': '' @ py_encode_basestring v @
      10 # replicate j 32 @ 125 # rest) pairs =
   Some (pairs @ [(k, PyStr v)], rest)"
proof -
  have k: "scanstring (concat (map escape_char k) @ 34 # lit '': '' @ py_encode_basestring v @
      10 # replicate j 32 @ 125 # rest) =
      Some (k, lit '': '' @ py_encode_basestring v @ 10 # replicate j 32 @ 125 # rest)"
    using scanstring_encoded [of k] by simp
  have c: "skip_ws (lit '': '' @ py_encode_basestring v @ 10 # replicate j 32 @ 125 # rest) =
      58 # 32 # py_encode_basestring v @ 10 # replicate j 32 @ 125 # rest"
    by (simp add: lit_def skip_ws_stop)
  have v: "scan_once (Suc n) (skip_ws (32 # py_encode_basestring v @ 10 # replicate j 32 @ 125 # rest)) =
      Some (PyStr v, 10 # replicate j 32 @ 125 # rest)"
    unfolding skip_ws_blank
    using scan_once_string [of n v "10 # replicate j 32 @ 125 # rest"]
    by (simp add: py_encode_basestring_def skip_ws_stop)
  have e: "skip_ws (10 # replicate j 32 @ 125 # rest) = 125 # rest"
    by (simp add: skip_ws_indent skip_ws_stop)
  show ?thesis
    by (subst object_loop.simps) (simp add: k c v e)
qed

lemma object_loop_next:
  "object_loop (Suc (Suc n))
     (concat (map escape_char k) @ 34 # lit '': '' @ py_encode_basestring v @
      44 # 10 # replicate j 32 @ 34 # rest) pairs =
   object_loop (Suc n) rest (pairs @ [(k, PyStr v)])"
proof -
  have k: "scanstring (concat (map escape_char k) @ 34 # lit '': '' @ py_encode_basestring v @
      44 # 10 # replicate j 32 @ 34 # rest) =
      Some (k, lit '': '' @ py_encode_basestring v @ 44 # 10 # replicate j 32 @ 34 # rest)"
    using scanstring_encoded [of k] by simp
  have c: "skip_ws (lit '': '' @ py_encode_basestring v @ 44 # 10 # replicate j 32 @ 34 # rest) =
      58 # 32 # py_encode_basestring v @ 44 # 10 # replicate j 32 @ 34 # rest"
    by (simp add: lit_def skip_ws_stop)
  have v: "scan_once (Suc n)
      (skip_ws (32 # py_encode_basestring v @ 44 # 10 # replicate j 32 @ 34 # rest)) =
      Some (PyStr v, 44 # 10 # replicate j 32 @ 34 # rest)"
    unfolding skip_ws_blank
    using scan_once_string [of n v "44 # 10 # replicate j 32 @ 34 # rest"]
    by (simp add: py_encode_basestring_def skip_ws_stop)
  have e: "skip_ws (44 # 10 # replicate j 32 @ 34 # rest) = 44 # 10 # replicate j 32 @ 34 # rest"
    by (simp add: skip_ws_stop)
  have f: "skip_ws (10 # replicate j 32 @ 34 # rest) = 34 # rest"
    by (simp add: skip_ws_indent skip_ws_stop)
  show ?thesis
    by (subst object_loop.simps) (simp add: k c v e f)
qed

lemma dict_of_pairs_record:
  "dict_of_pairs [(lit ''name'', n), (lit ''price'', p), (lit ''image_url'', u)] =
     [(lit ''name'', n), (lit ''price'', p), (lit ''image_url'', u)]"
  by (simp add: dict_of_pairs_def lit_def)

lemma scan_once_record:
  "scan_once (Suc (Suc (Suc (Suc (Suc n)))))
     (iterencode (Suc 0) (PyDict [(lit ''name'', PyStr n'), (lit ''price'', PyStr p),
                                  (lit ''image_url'', PyStr u)]) @ rest) =
   Some (PyDict [(lit ''name'', PyStr n'), (lit ''price'', PyStr p), (lit ''image_url'', PyStr u)],
         rest)"
proof -
  let ?k1 = "concat (map escape_char (lit ''name''))"
  let ?k2 = "concat (map escape_char (lit ''price''))"
  let ?k3 = "concat (map escape_char (lit ''image_url''))"
  let ?t3 = "?k3 @ 34 # lit '': '' @ py_encode_basestring u @ 10 # replicate 4 32 @ 125 # rest"
  let ?t2 = "?k2 @ 34 # lit '': '' @ py_encode_basestring p @ 44 # 10 # replicate 8 32 @ 34 # ?t3"
  let ?t1 = "?k1 @ 34 # lit '': '' @ py_encode_basestring n' @ 44 # 10 # replicate 8 32 @ 34 # ?t2"
  have enc: "py_encode_basestring k = 34 # concat (map escape_char k) @ [34]" for k
    by (simp add: py_encode_basestring_def)
  have sym: "lit ''{'' = [123]" "lit ''}'' = [125]" "lit '','' = [44]"
    by (simp_all add: lit_def)
  have layout: "iterencode (Suc 0) (PyDict [(lit ''name'', PyStr n'), (lit ''price'', PyStr p),
                                  (lit ''image_url'', PyStr u)]) @ rest =
      123 # 10 # replicate 8 32 @ 34 # ?t1"
    unfolding iterencode_record enc [of "lit ''name''"] enc [of "lit ''price''"]
      enc [of "lit ''image_url''"] sym
    by (simp del: replicate.simps replicate_Suc)
  have ws: "skip_ws (10 # replicate 8 32 @ 34 # ?t1) = 34 # ?t1"
    by (simp only: skip_ws_indent skip_ws_stop not_json_ws not_False_eq_True)
  have "object_loop (Suc (Suc (Suc (Suc n)))) ?t1 [] =
      object_loop (Suc (Suc (Suc n))) ?t2 ([] @ [(lit ''name'', PyStr n')])"
    by (rule object_loop_next)
  also have "\<dots> = object_loop (Suc (Suc n)) ?t3
      (([] @ [(lit ''name'', PyStr n')]) @ [(lit ''price'', PyStr p)])"
    by (rule object_loop_next)
  also have "\<dots> = Some ((([] @ [(lit ''name'', PyStr n')]) @ [(lit ''price'', PyStr p)]) @
      [(lit ''image_url'', PyStr u)], rest)"
    by (rule object_loop_last)
  finally have loop: "object_loop (Suc (Suc (Suc (Suc n)))) ?t1 [] =
      Some ([(lit ''name'', PyStr n'), (lit ''price'', PyStr p), (lit ''image_url'', PyStr u)], rest)"
    by simp
  show ?thesis
    unfolding layout
    by (subst scan_once.simps) (simp add: ws loop dict_of_pairs_record)
qed

subsection \<open>Arrays of records\<close>

lemma join_Cons: "xs \<noteq> [] \<Longrightarrow> join sep (x # xs) = x @ sep @ join sep xs"
  by (cases xs) simp_all

lemma length_join: "\<forall>x\<in>set xs. x \<noteq> [] \<Longrightarrow> length xs \<le> length (join sep xs)"
proof (induction sep xs rule: join.induct)
  case (1 sep)
  show ?case by simp
next
  case (2 sep x)
  then show ?case by (cases x) simp_all
next
  case (3 sep x y ys)
  then have "length (y # ys) \<le> length (join sep (y # ys))" by simp
  moreover from "3.prems" have "x \<noteq> []" by simp
  then have "1 \<le> length x" by (cases x) simp_all
  ultimately show ?case by simp
qed

lemma iterencode_record_head:
  "\<exists>t. iterencode (Suc 0) (PyDict [(lit ''name'', PyStr n), (lit ''price'', PyStr p),
                                    (lit ''image_url'', PyStr u)]) = 123 # t"
  unfolding iterencode_record by (simp add: lit_def)

lemma join_records_head:
  assumes "items \<noteq> []"
    and "\<forall>r\<in>set items. \<exists>n p u.
           r = PyDict [(lit ''name'', PyStr n), (lit ''price'', PyStr p), (lit ''image_url'', PyStr u)]"
  shows "\<exists>t. join sep (map (iterencode (Suc 0)) items) = 123 # t"
proof (cases items)
  case Nil
  with assms(1) show ?thesis by simp
next
  case (Cons r rs)
  with assms(2) obtain n p u where
    r: "r = PyDict [(lit ''name'', PyStr n), (lit ''price'', PyStr p), (lit ''image_url'', PyStr u)]"
    by auto
  from iterencode_record_head [of n p u] r obtain t where t: "iterencode (Suc 0) r = 123 # t"
    by blast
  show ?thesis
  proof (cases rs)
    case Nil
    with Cons t show ?thesis by simp
  next
    case (Cons r' rs')
    with \<open>items = r # rs\<close> t show ?thesis by simp
  qed
qed

lemma skip_ws_line: "skip_ws (10 # t) = skip_ws t"
  by (simp add: skip_ws_def json_ws_def)

lemma array_loop_records:
  assumes "items \<noteq> []"
    and "\<forall>r\<in>set items. \<exists>n p u.
           r = PyDict [(lit ''name'', PyStr n), (lit ''price'', PyStr p), (lit ''image_url'', PyStr u)]"
  shows "array_loop (Suc (Suc (Suc (Suc (Suc (length items + m))))))
           (join (44 # 10 # replicate 4 32) (map (iterencode (Suc 0)) items) @ 10 # 93 # rest) acc =
         Some (acc @ items, rest)"
  using assms
proof (induction items arbitrary: acc rule: list_nonempty_induct)
  case (single r)
  then obtain n p u where
    r: "r = PyDict [(lit ''name'', PyStr n), (lit ''price'', PyStr p), (lit ''image_url'', PyStr u)]"
    by auto
  have v: "scan_once (Suc (Suc (Suc (Suc (Suc m))))) (iterencode (Suc 0) r @ 10 # 93 # rest) =
      Some (r, 10 # 93 # rest)"
    unfolding r by (rule scan_once_record)
  have w: "skip_ws (10 # 93 # rest) = 93 # rest"
    by (simp add: skip_ws_line skip_ws_stop)
  show ?case
    by (subst array_loop.simps) (simp add: v w)
next
  case (cons r rs)
  from cons.prems obtain n p u where
    r: "r = PyDict [(lit ''name'', PyStr n), (lit ''price'', PyStr p), (lit ''image_url'', PyStr u)]"
    by auto
  let ?sep = "44 # 10 # replicate 4 32"
  let ?tail = "join ?sep (map (iterencode (Suc 0)) rs) @ 10 # 93 # rest"
  from cons.hyps(1) have j: "join ?sep (map (iterencode (Suc 0)) (r # rs)) @ 10 # 93 # rest =
      iterencode (Suc 0) r @ 44 # 10 # replicate 4 32 @ ?tail"
    by (simp add: join_Cons)
  have v: "scan_once (Suc (Suc (Suc (Suc (Suc (length rs + m))))))
      (iterencode (Suc 0) r @ 44 # 10 # replicate 4 32 @ ?tail) =
      Some (r, 44 # 10 # replicate 4 32 @ ?tail)"
    unfolding r by (rule scan_once_record)
  have w: "skip_ws (44 # 10 # replicate 4 32 @ ?tail) = 44 # 10 # replicate 4 32 @ ?tail"
    by (simp add: skip_ws_stop)
  from join_records_head [OF cons.hyps(1), of ?sep] cons.prems obtain t where
    "join ?sep (map (iterencode (Suc 0)) rs) = 123 # t" by auto
  then have x: "skip_ws (10 # replicate 4 32 @ ?tail) = ?tail"
    by (simp add: skip_ws_indent skip_ws_stop)
  have ih: "array_loop (Suc (Suc (Suc (Suc (Suc (length rs + m)))))) ?tail (acc @ [r]) =
      Some ((acc @ [r]) @ rs, rest)"
    using cons.prems by (intro cons.IH) simp
  have "array_loop (Suc (Suc (Suc (Suc (Suc (Suc (length rs + m)))))))
      (iterencode (Suc 0) r @ 44 # 10 # replicate 4 32 @ ?tail) acc = Some (acc @ r # rs, rest)"
    by (subst array_loop.simps) (simp add: v w x ih)
  then show ?case
    unfolding j by simp
qed

lemma json_loads_records:
  assumes "items \<noteq> []"
    and "\<forall>r\<in>set items. \<exists>n p u.
           r = PyDict [(lit ''name'', PyStr n), (lit ''price'', PyStr p), (lit ''image_url'', PyStr u)]"
  shows "json_loads (json_dump (PyList items)) = Some (PyList items)"
proof -
  let ?sep = "44 # 10 # replicate 4 32"
  let ?body = "join ?sep (map (iterencode (Suc 0)) items) @ 10 # 93 # []"
  have doc: "json_dump (PyList items) = 91 # 10 # replicate 4 32 @ ?body"
    using json_dump_list [OF assms(1)] by (simp add: lit_def)
  have "\<forall>x\<in>set (map (iterencode (Suc 0)) items). x \<noteq> []"
  proof
    fix x assume "x \<in> set (map (iterencode (Suc 0)) items)"
    then obtain r where r: "r \<in> set items" "x = iterencode (Suc 0) r" by auto
    with assms(2) obtain n p u where
      "r = PyDict [(lit ''name'', PyStr n), (lit ''price'', PyStr p), (lit ''image_url'', PyStr u)]"
      by blast
    with iterencode_record_head [of n p u] r(2) obtain t where "x = 123 # t" by auto
    then show "x \<noteq> []" by simp
  qed
  then have "length (map (iterencode (Suc 0)) items) \<le>
      length (join ?sep (map (iterencode (Suc 0)) items))"
    by (rule length_join)
  then have "length items + 6 \<le> length (91 # 10 # replicate 4 32 @ ?body)" by simp
  then obtain m where "length (91 # 10 # replicate 4 32 @ ?body) = length items + 6 + m"
    using le_Suc_ex by blast
  then have fuel: "length (91 # 10 # replicate 4 32 @ ?body) =
      Suc (Suc (Suc (Suc (Suc (Suc (length items + m))))))"
    by simp
  from join_records_head [OF assms, of ?sep] obtain t where
    t: "join ?sep (map (iterencode (Suc 0)) items) = 123 # t" by blast
  then have ws: "skip_ws (10 # replicate 4 32 @ ?body) = 123 # t @ 10 # 93 # []"
    by (simp add: skip_ws_indent skip_ws_stop)
  have "array_loop (Suc (Suc (Suc (Suc (Suc (length items + m)))))) ?body [] =
      Some ([] @ items, [])"
    using assms by (rule array_loop_records)
  then have loop: "array_loop (Suc (Suc (Suc (Suc (Suc (length items + m))))))
      (123 # t @ 10 # 93 # []) [] = Some (items, [])"
    by (simp add: t)
  have scan: "scan_once (length (91 # 10 # replicate 4 32 @ ?body))
      (91 # 10 # replicate 4 32 @ ?body) = Some (PyList items, [])"
    unfolding fuel by (subst scan_once.simps) (simp add: ws loop)
  have top: "skip_ws (91 # 10 # replicate 4 32 @ ?body) = 91 # 10 # replicate 4 32 @ ?body"
    by (simp add: skip_ws_stop)
  have e: "skip_ws [] = []" by (simp add: skip_ws_def)
  show ?thesis
    unfolding json_loads_def doc top scan by (simp add: e)
qed

section \<open>Properties of the pipeline\<close>

subsection \<open>The allocator on a file system\<close>

lemma get_unique_filename_unused:
  assumes "get_unique_filename ex b e = Some p"
  shows "\<not> ex p"
proof (cases "ex (b @ e)")
  case False
  with assms show ?thesis by (simp add: get_unique_filename_def)
next
  case True
  with assms have "get_unique_filename_loop ex b e 1 = Some p"
    by (simp add: get_unique_filename_def)
  then show ?thesis by (rule loop_result_unused)
qed

lemma os_path_exists_iff: "os_path_exists fs p \<longleftrightarrow> p \<in> fmdom' fs"
  by (simp add: os_path_exists_def fmlookup_dom'_iff)

lemma get_unique_filename_total:
  "\<exists>p. get_unique_filename (os_path_exists fs) b e = Some p"
proof -
  let ?h = "\<lambda>k. b @ lit ''_'' @ str k @ e"
  have "inj_on ?h {1..}"
  proof (rule inj_onI)
    fix x y :: int
    assume "x \<in> {1..}" "y \<in> {1..}" "?h x = ?h y"
    then show "x = y" using str_inj [of x y] by simp
  qed
  with finite_fmdom' [of fs] have "finite (?h -` fmdom' fs \<inter> {1..})"
    by (rule finite_vimage_IntI)
  moreover have "{k. 1 \<le> k \<and> os_path_exists fs (?h k)} = ?h -` fmdom' fs \<inter> {1..}"
    by (auto simp: os_path_exists_iff)
  ultimately have "finite {k. 1 \<le> k \<and> os_path_exists fs (?h k)}" by simp
  then have "\<exists>p. get_unique_filename_loop (os_path_exists fs) b e 1 = Some p"
    by (rule loop_terminates)
  then show ?thesis by (simp add: get_unique_filename_def)
qed

lemma parse_html_to_json_regular:
  assumes r: "open_read (files w) (lit ''index.html'') = Inr content"
    and p: "get_unique_filename (os_path_exists (files w)) (lit ''nft_collection'')
      (lit ''.json'') = Some path"
  shows "parse_html_to_json html_parser w =
     Some
       (let nft_data = fold process_item
              (find_all (html_parser content) (lit ''div'') (lit ''NftItemContainer'')) []
        in if nft_data = [] then Inr (w\<lparr>stdout := stdout w @ [NothingFound]\<rparr>)
           else if utf8_encodable (json_dump (PyList nft_data))
           then Inr (w\<lparr>files := fmupd path (RegularFile (json_dump (PyList nft_data))) (files w),
                        stdout := stdout w @ [Processed (length nft_data), SavedTo path]\<rparr>)
           else Inl (UnicodeEncodeError,
                  w\<lparr>files := fmupd path
                      (RegularFile (concat (takeWhile utf8_encodable
                         (iterencode_chunks 0 (PyList nft_data))))) (files w)\<rparr>))"
proof -
  from p have "\<not> os_path_exists (files w) path"
    by (rule get_unique_filename_unused)
  note wr = json_dump_file_result [OF this]
  from r p show ?thesis
    by (simp add: parse_html_to_json_def py_print_def Let_def wr)
qed

subsection \<open>A missing input file\<close>

text \<open>
  Claim C3. When \<^verbatim>\<open>index.html\<close> does not exist, the pipeline prints the error message
  and returns normally: no exception leaves the function, and the file system is as it
  was, so no output file is written. The message is printed in this case only.
\<close>

theorem parse_html_to_json_input_missing:
  "(\<not> os_path_exists (files w) (lit ''index.html'') \<longrightarrow>
      parse_html_to_json html_parser w =
        Some (Inr (w\<lparr>stdout := stdout w @ [InputNotFound (lit ''index.html'')]\<rparr>))) \<and>
   (os_path_exists (files w) (lit ''index.html'') \<longrightarrow>
      parse_html_to_json html_parser w \<noteq>
        Some (Inr (w\<lparr>stdout := stdout w @ [InputNotFound (lit ''index.html'')]\<rparr>)))"
proof (intro conjI impI)
  obtain p where p: "get_unique_filename (os_path_exists (files w)) (lit ''nft_collection'')
      (lit ''.json'') = Some p"
    using get_unique_filename_total by blast
  {
    assume "\<not> os_path_exists (files w) (lit ''index.html'')"
    then have "open_read (files w) (lit ''index.html'') = Inl FileNotFoundError"
      by (simp add: os_path_exists_def open_read_def)
    with p show "parse_html_to_json html_parser w =
        Some (Inr (w\<lparr>stdout := stdout w @ [InputNotFound (lit ''index.html'')]\<rparr>))"
      by (simp add: parse_html_to_json_def py_print_def)
  }
  {
    assume "os_path_exists (files w) (lit ''index.html'')"
    then obtain en where en: "fmlookup (files w) (lit ''index.html'') = Some en"
      by (auto simp: os_path_exists_def)
    show "parse_html_to_json html_parser w \<noteq>
        Some (Inr (w\<lparr>stdout := stdout w @ [InputNotFound (lit ''index.html'')]\<rparr>))"
    proof (cases en)
      case Directory
      with en p show ?thesis
        by (simp add: parse_html_to_json_def open_read_def)
    next
      case (RegularFile content)
      with en have r: "open_read (files w) (lit ''index.html'') = Inr content"
        by (simp add: open_read_def)
      let ?out = "parse_html_to_json html_parser w"
      have "(\<exists>err w'. ?out = Some (Inl (err, w'))) \<or>
          (\<exists>w' ms. ?out = Some (Inr w') \<and> stdout w' = stdout w @ ms \<and>
            ms \<noteq> [InputNotFound (lit ''index.html'')])"
        unfolding parse_html_to_json_regular [OF r p] by (simp add: Let_def)
      then consider err w' where "?out = Some (Inl (err, w'))"
        | w' ms where "?out = Some (Inr w')" "stdout w' = stdout w @ ms"
            "ms \<noteq> [InputNotFound (lit ''index.html'')]"
        by blast
      then show ?thesis
      proof cases
        case 1
        then show ?thesis by simp
      next
        case 2
        show ?thesis
        proof
          assume "?out =
            Some (Inr (w\<lparr>stdout := stdout w @ [InputNotFound (lit ''index.html'')]\<rparr>))"
          with 2(1) have "w' = w\<lparr>stdout := stdout w @ [InputNotFound (lit ''index.html'')]\<rparr>"
            by simp
          then have "stdout w' = stdout w @ [InputNotFound (lit ''index.html'')]" by simp
          with 2(2,3) show False by simp
        qed
      qed
    qed
  }
qed

theorem parse_html_to_json_input_missing_witness:
  "\<not> os_path_exists (files \<lparr>files = fmempty, stdout = []\<rparr>) (lit ''index.html'') \<and>
   parse_html_to_json (\<lambda>content. Tag (lit ''[document]'') [] Map.empty [])
       \<lparr>files = fmempty, stdout = []\<rparr> =
     Some (Inr \<lparr>files = fmempty, stdout = [InputNotFound (lit ''index.html'')]\<rparr>)"
  using parse_html_to_json_input_missing
    [of "\<lparr>files = fmempty, stdout = []\<rparr>" "\<lambda>content. Tag (lit ''[document]'') [] Map.empty []"]
  by (simp add: os_path_exists_def)

subsection \<open>The written document\<close>

text \<open>
  Claim C4, as the specification states it, fails: a Collection can be non-empty and yet
  not be serialised. A name that holds a lone surrogate (code point 55296, as the
  character reference \<^verbatim>\<open>&#xD800;\<close> in a text node gives) cannot be written to the
  UTF-8 file: \<^verbatim>\<open>json.dump\<close> raises \<^verbatim>\<open>UnicodeEncodeError\<close>, which the program does
  not catch. The output file is left with the 24 characters written before the name,
  and no success message is printed.
\<close>

theorem parse_html_to_json_surrogate_counterexample:
  "fold process_item
     (find_all
        (Tag (lit ''[document]'') [] Map.empty
           [Tag (lit ''div'') [lit ''NftItemContainer''] Map.empty
              [Tag (lit ''img'') [lit ''LibraryMedia''] [lit ''src'' \<mapsto> lit ''http://x/1.png''] [],
               Tag (lit ''span'') [lit ''NftItemNameContent__name''] Map.empty
                 [NavigableString [55296]]]])
        (lit ''div'') (lit ''NftItemContainer'')) [] =
     [PyDict [(lit ''name'', PyStr [55296]), (lit ''price'', PyStr (lit ''Not Listed'')),
              (lit ''image_url'', PyStr (lit ''http://x/1.png''))]] \<and>
   parse_html_to_json
     (\<lambda>content. Tag (lit ''[document]'') [] Map.empty
        [Tag (lit ''div'') [lit ''NftItemContainer''] Map.empty
           [Tag (lit ''img'') [lit ''LibraryMedia''] [lit ''src'' \<mapsto> lit ''http://x/1.png''] [],
            Tag (lit ''span'') [lit ''NftItemNameContent__name''] Map.empty
              [NavigableString [55296]]]])
     \<lparr>files = fmupd (lit ''index.html'') (RegularFile (lit ''<html>'')) fmempty, stdout = []\<rparr> =
   Some (Inl (UnicodeEncodeError,
     \<lparr>files = fmupd (lit ''nft_collection.json'')
         (RegularFile
            (lit ''['' @ [10] @
             lit ''    {'' @ [10] @
             lit ''        '' @ [34] @ lit ''name'' @ [34] @ lit '': ''))
         (fmupd (lit ''index.html'') (RegularFile (lit ''<html>'')) fmempty),
      stdout = []\<rparr>))"
proof -
  let ?soup = "Tag (lit ''[document]'') [] Map.empty
           [Tag (lit ''div'') [lit ''NftItemContainer''] Map.empty
              [Tag (lit ''img'') [lit ''LibraryMedia''] [lit ''src'' \<mapsto> lit ''http://x/1.png''] [],
               Tag (lit ''span'') [lit ''NftItemNameContent__name''] Map.empty
                 [NavigableString [55296]]]]"
  let ?data = "[PyDict [(lit ''name'', PyStr [55296]), (lit ''price'', PyStr (lit ''Not Listed'')),
              (lit ''image_url'', PyStr (lit ''http://x/1.png''))]]"
  let ?fs = "fmupd (lit ''index.html'') (RegularFile (lit ''<html>'')) fmempty"
  have data: "fold process_item (find_all ?soup (lit ''div'') (lit ''NftItemContainer'')) [] = ?data"
    by (simp add: process_item_def image_url_def name_def price_def find_def find_all_def
        get_text_strip_def strip_def isspace_def lit_def)
  have path: "get_unique_filename (os_path_exists ?fs) (lit ''nft_collection'')
      (lit ''.json'') = Some (lit ''nft_collection.json'')"
    by (simp add: get_unique_filename_def os_path_exists_def lit_def)
  have rd: "open_read ?fs (lit ''index.html'') = Inr (lit ''<html>'')"
    by (simp add: open_read_def)
  have free: "fmlookup ?fs (lit ''nft_collection.json'') = None"
    by (simp add: lit_def)
  have chunks: "fp_write_all (iterencode_chunks 0 (PyList ?data)) [] =
      Inl (UnicodeEncodeError,
           lit ''['' @ [10] @ lit ''    {'' @ [10] @
           lit ''        '' @ [34] @ lit ''name'' @ [34] @ lit '': '')"
  proof -
    have nl: "newline_indent 0 = [10]" "newline_indent (Suc 0) = 10 # lit ''    ''"
      "newline_indent (Suc (Suc 0)) = 10 # lit ''        ''"
      by (simp_all add: newline_indent_def lit_def eval_nat_numeral)
    show ?thesis
      by (simp add: nl py_encode_basestring_def escape_char_def lit_def)
  qed
  have dump: "json_dump_file ?fs (lit ''nft_collection.json'') (PyList ?data) =
      Inl (UnicodeEncodeError,
        fmupd (lit ''nft_collection.json'')
          (RegularFile (lit ''['' @ [10] @ lit ''    {'' @ [10] @
             lit ''        '' @ [34] @ lit ''name'' @ [34] @ lit '': '')) ?fs)"
    unfolding json_dump_file_def free chunks by simp
  have "parse_html_to_json (\<lambda>content. ?soup) \<lparr>files = ?fs, stdout = []\<rparr> =
      Some (Inl (UnicodeEncodeError,
        \<lparr>files = fmupd (lit ''nft_collection.json'')
          (RegularFile (lit ''['' @ [10] @ lit ''    {'' @ [10] @
             lit ''        '' @ [34] @ lit ''name'' @ [34] @ lit '': '')) ?fs,
         stdout = []\<rparr>))"
    unfolding parse_html_to_json_def by (simp add: path rd data dump)
  with data show ?thesis by simp
qed

text \<open>
  Claim C4, amended. If the Collection is non-empty and every string in it can be
  encoded as UTF-8 (it holds no lone surrogate), the pipeline writes, to the path the
  allocator returned, a JSON array with one object per record, whose keys are
  \<^verbatim>\<open>name\<close>, \<^verbatim>\<open>price\<close>, \<^verbatim>\<open>image_url\<close> in this order, indented by four spaces per
  level. In a string the quote and the backslash are escaped with a backslash, the
  control characters as \<^verbatim>\<open>\b \f \n \r \t\<close> or \<^verbatim>\<open>\u00XX\<close>, and every other character,
  also outside ASCII, is copied as it is; the text is a JSON document that decodes to
  the Collection. The pipeline then reports the record count and the path. If the
  Collection is empty, it prints the warning and leaves the file system unchanged.
\<close>

theorem parse_html_to_json_output:
  assumes "open_read (files w) (lit ''index.html'') = Inr content"
    and "nft_data = fold process_item
           (find_all (html_parser content) (lit ''div'') (lit ''NftItemContainer'')) []"
  shows
  "(nft_data \<noteq> [] \<and>
    (\<forall>n p u. PyDict [(lit ''name'', PyStr n), (lit ''price'', PyStr p),
                     (lit ''image_url'', PyStr u)] \<in> set nft_data \<longrightarrow>
        utf8_encodable n \<and> utf8_encodable p \<and> utf8_encodable u) \<longrightarrow>
      (\<exists>path. get_unique_filename (os_path_exists (files w)) (lit ''nft_collection'')
                 (lit ''.json'') = Some path \<and>
         parse_html_to_json html_parser w =
           Some (Inr (w\<lparr>files := fmupd path (RegularFile (json_dump (PyList nft_data))) (files w),
                         stdout := stdout w @ [Processed (length nft_data), SavedTo path]\<rparr>)))) \<and>
   (nft_data = [] \<longrightarrow>
      parse_html_to_json html_parser w = Some (Inr (w\<lparr>stdout := stdout w @ [NothingFound]\<rparr>))) \<and>
   (nft_data \<noteq> [] \<longrightarrow>
      json_dump (PyList nft_data) =
        lit ''['' @ [10] @ replicate 4 32 @
        join (lit '','' @ [10] @ replicate 4 32) (map (iterencode (Suc 0)) nft_data) @
        [10] @ lit '']'' \<and>
      json_loads (json_dump (PyList nft_data)) = Some (PyList nft_data)) \<and>
   (\<forall>r\<in>set nft_data. \<exists>n p u.
      r = PyDict [(lit ''name'', PyStr n), (lit ''price'', PyStr p), (lit ''image_url'', PyStr u)] \<and>
      iterencode (Suc 0) r =
        lit ''{'' @ [10] @ replicate 8 32 @
        py_encode_basestring (lit ''name'') @ lit '': '' @ py_encode_basestring n @
        lit '','' @ [10] @ replicate 8 32 @
        py_encode_basestring (lit ''price'') @ lit '': '' @ py_encode_basestring p @
        lit '','' @ [10] @ replicate 8 32 @
        py_encode_basestring (lit ''image_url'') @ lit '': '' @ py_encode_basestring u @
        [10] @ replicate 4 32 @ lit ''}'') \<and>
   py_encode_basestring s = [34] @ concat (map escape_char s) @ [34] \<and>
   escape_char 34 = [92, 34] \<and> escape_char 92 = [92, 92] \<and>
   escape_char 8 = [92, 98] \<and> escape_char 12 = [92, 102] \<and> escape_char 10 = [92, 110] \<and>
   escape_char 13 = [92, 114] \<and> escape_char 9 = [92, 116] \<and>
   escape_char 1 = [92, 117, 48, 48, 48, 49] \<and> escape_char 31 = [92, 117, 48, 48, 49, 102] \<and>
   (c < 32 \<and> c \<noteq> 8 \<and> c \<noteq> 9 \<and> c \<noteq> 10 \<and> c \<noteq> 12 \<and> c \<noteq> 13 \<longrightarrow>
      escape_char c = [92, 117, 48, 48, hex_digit (c div 16), hex_digit (c mod 16)]) \<and>
   (32 \<le> c \<and> c \<noteq> 34 \<and> c \<noteq> 92 \<longrightarrow> escape_char c = [c])"
proof (intro conjI)
  obtain path where p: "get_unique_filename (os_path_exists (files w)) (lit ''nft_collection'')
      (lit ''.json'') = Some path"
    using get_unique_filename_total by blast
  note run = parse_html_to_json_regular [OF assms(1) p, of html_parser, folded assms(2)]
  have shape: "\<forall>r\<in>set nft_data. \<exists>n p u.
      r = PyDict [(lit ''name'', PyStr n), (lit ''price'', PyStr p), (lit ''image_url'', PyStr u)]"
    unfolding assms(2) using emitted_record by blast
  show "nft_data \<noteq> [] \<and>
    (\<forall>n p u. PyDict [(lit ''name'', PyStr n), (lit ''price'', PyStr p),
                     (lit ''image_url'', PyStr u)] \<in> set nft_data \<longrightarrow>
        utf8_encodable n \<and> utf8_encodable p \<and> utf8_encodable u) \<longrightarrow>
      (\<exists>path. get_unique_filename (os_path_exists (files w)) (lit ''nft_collection'')
                 (lit ''.json'') = Some path \<and>
         parse_html_to_json html_parser w =
           Some (Inr (w\<lparr>files := fmupd path (RegularFile (json_dump (PyList nft_data))) (files w),
                         stdout := stdout w @ [Processed (length nft_data), SavedTo path]\<rparr>)))"
  proof
    assume h: "nft_data \<noteq> [] \<and>
      (\<forall>n p u. PyDict [(lit ''name'', PyStr n), (lit ''price'', PyStr p),
                     (lit ''image_url'', PyStr u)] \<in> set nft_data \<longrightarrow>
        utf8_encodable n \<and> utf8_encodable p \<and> utf8_encodable u)"
    have "\<forall>r\<in>set nft_data. \<exists>n p u.
      r = PyDict [(lit ''name'', PyStr n), (lit ''price'', PyStr p), (lit ''image_url'', PyStr u)] \<and>
      utf8_encodable n \<and> utf8_encodable p \<and> utf8_encodable u"
    proof
      fix r assume r: "r \<in> set nft_data"
      with shape obtain n p u where
        "r = PyDict [(lit ''name'', PyStr n), (lit ''price'', PyStr p), (lit ''image_url'', PyStr u)]"
        by blast
      with r h show "\<exists>n p u.
        r = PyDict [(lit ''name'', PyStr n), (lit ''price'', PyStr p), (lit ''image_url'', PyStr u)] \<and>
        utf8_encodable n \<and> utf8_encodable p \<and> utf8_encodable u"
        by blast
    qed
    then have "utf8_encodable (json_dump (PyList nft_data))"
      by (rule utf8_encodable_collection)
    with h p run show "\<exists>path. get_unique_filename (os_path_exists (files w)) (lit ''nft_collection'')
                 (lit ''.json'') = Some path \<and>
         parse_html_to_json html_parser w =
           Some (Inr (w\<lparr>files := fmupd path (RegularFile (json_dump (PyList nft_data))) (files w),
                         stdout := stdout w @ [Processed (length nft_data), SavedTo path]\<rparr>))"
      by (simp add: Let_def)
  qed
  show "nft_data = [] \<longrightarrow>
      parse_html_to_json html_parser w = Some (Inr (w\<lparr>stdout := stdout w @ [NothingFound]\<rparr>))"
    using run by (simp add: Let_def)
  show "nft_data \<noteq> [] \<longrightarrow>
      json_dump (PyList nft_data) =
        lit ''['' @ [10] @ replicate 4 32 @
        join (lit '','' @ [10] @ replicate 4 32) (map (iterencode (Suc 0)) nft_data) @
        [10] @ lit '']'' \<and>
      json_loads (json_dump (PyList nft_data)) = Some (PyList nft_data)"
    using json_dump_list [of nft_data] json_loads_records [OF _ shape] by blast
  show "\<forall>r\<in>set nft_data. \<exists>n p u.
      r = PyDict [(lit ''name'', PyStr n), (lit ''price'', PyStr p), (lit ''image_url'', PyStr u)] \<and>
      iterencode (Suc 0) r =
        lit ''{'' @ [10] @ replicate 8 32 @
        py_encode_basestring (lit ''name'') @ lit '': '' @ py_encode_basestring n @
        lit '','' @ [10] @ replicate 8 32 @
        py_encode_basestring (lit ''price'') @ lit '': '' @ py_encode_basestring p @
        lit '','' @ [10] @ replicate 8 32 @
        py_encode_basestring (lit ''image_url'') @ lit '': '' @ py_encode_basestring u @
        [10] @ replicate 4 32 @ lit ''}''"
  proof
    fix r assume "r \<in> set nft_data"
    with shape obtain n p u where
      "r = PyDict [(lit ''name'', PyStr n), (lit ''price'', PyStr p), (lit ''image_url'', PyStr u)]"
      by blast
    with iterencode_record [of n p u]
    show "\<exists>n p u.
      r = PyDict [(lit ''name'', PyStr n), (lit ''price'', PyStr p), (lit ''image_url'', PyStr u)] \<and>
      iterencode (Suc 0) r =
        lit ''{'' @ [10] @ replicate 8 32 @
        py_encode_basestring (lit ''name'') @ lit '': '' @ py_encode_basestring n @
        lit '','' @ [10] @ replicate 8 32 @
        py_encode_basestring (lit ''price'') @ lit '': '' @ py_encode_basestring p @
        lit '','' @ [10] @ replicate 8 32 @
        py_encode_basestring (lit ''image_url'') @ lit '': '' @ py_encode_basestring u @
        [10] @ replicate 4 32 @ lit ''}''"
      by blast
  qed
  show "py_encode_basestring s = [34] @ concat (map escape_char s) @ [34]"
    by (simp add: py_encode_basestring_def)
  show "escape_char 34 = [92, 34]" "escape_char 92 = [92, 92]" "escape_char 8 = [92, 98]"
    "escape_char 12 = [92, 102]" "escape_char 10 = [92, 110]" "escape_char 13 = [92, 114]"
    "escape_char 9 = [92, 116]" "escape_char 1 = [92, 117, 48, 48, 48, 49]"
    "escape_char 31 = [92, 117, 48, 48, 49, 102]"
    by (simp_all add: escape_char_def hex_digit_def)
  show "c < 32 \<and> c \<noteq> 8 \<and> c \<noteq> 9 \<and> c \<noteq> 10 \<and> c \<noteq> 12 \<and> c \<noteq> 13 \<longrightarrow>
      escape_char c = [92, 117, 48, 48, hex_digit (c div 16), hex_digit (c mod 16)]"
    by (simp add: escape_char_def)
  show "32 \<le> c \<and> c \<noteq> 34 \<and> c \<noteq> 92 \<longrightarrow> escape_char c = [c]"
    by (simp add: escape_char_def)
qed

text \<open>
  A run whose name holds a Cyrillic letter, a quote, a backslash, the control character
  7 and a line feed: the file holds the escapes and the letters as they are.
\<close>

theorem parse_html_to_json_output_witness:
  "parse_html_to_json
     (\<lambda>content. Tag (lit ''[document]'') [] Map.empty
        [Tag (lit ''div'') [lit ''NftItemContainer''] Map.empty
           [Tag (lit ''img'') [lit ''LibraryMedia''] [lit ''src'' \<mapsto> lit ''http://x/1.png''] [],
            Tag (lit ''span'') [lit ''NftItemNameContent__name''] Map.empty
              [NavigableString [1050, 34, 92, 7, 10, 1090]],
            Tag (lit ''div'') [lit ''LibraryCryptoPrice__amount''] Map.empty
              [NavigableString (lit ''1.5 TON'')]]])
     \<lparr>files = fmupd (lit ''index.html'') (RegularFile (lit ''<html>'')) fmempty, stdout = []\<rparr> =
   Some (Inr
     \<lparr>files = fmupd (lit ''nft_collection.json'')
         (RegularFile
            (lit ''['' @ [10] @
             lit ''    {'' @ [10] @
             lit ''        '' @ [34] @ lit ''name'' @ [34] @ lit '': '' @
               [34, 1050, 92, 34, 92, 92, 92, 117, 48, 48, 48, 55, 92, 110, 1090, 34] @
               lit '','' @ [10] @
             lit ''        '' @ [34] @ lit ''price'' @ [34] @ lit '': '' @
               [34] @ lit ''1.5 TON'' @ [34] @ lit '','' @ [10] @
             lit ''        '' @ [34] @ lit ''image_url'' @ [34] @ lit '': '' @
               [34] @ lit ''http://x/1.png'' @ [34] @ [10] @
             lit ''    }'' @ [10] @
             lit '']''))
         (fmupd (lit ''index.html'') (RegularFile (lit ''<html>'')) fmempty),
      stdout = [Processed 1, SavedTo (lit ''nft_collection.json'')]\<rparr>)"
proof -
  let ?soup = "Tag (lit ''[document]'') [] Map.empty
        [Tag (lit ''div'') [lit ''NftItemContainer''] Map.empty
           [Tag (lit ''img'') [lit ''LibraryMedia''] [lit ''src'' \<mapsto> lit ''http://x/1.png''] [],
            Tag (lit ''span'') [lit ''NftItemNameContent__name''] Map.empty
              [NavigableString [1050, 34, 92, 7, 10, 1090]],
            Tag (lit ''div'') [lit ''LibraryCryptoPrice__amount''] Map.empty
              [NavigableString (lit ''1.5 TON'')]]]"
  let ?w = "\<lparr>files = fmupd (lit ''index.html'') (RegularFile (lit ''<html>'')) fmempty,
             stdout = []\<rparr>"
  let ?data = "[PyDict [(lit ''name'', PyStr [1050, 34, 92, 7, 10, 1090]),
                        (lit ''price'', PyStr (lit ''1.5 TON'')),
                        (lit ''image_url'', PyStr (lit ''http://x/1.png''))]]"
  have rd: "open_read (files ?w) (lit ''index.html'') = Inr (lit ''<html>'')"
    by (simp add: open_read_def)
  have data: "?data = fold process_item
      (find_all ((\<lambda>content. ?soup) (lit ''<html>'')) (lit ''div'') (lit ''NftItemContainer'')) []"
    by (simp add: process_item_def image_url_def name_def price_def find_def find_all_def
        get_text_strip_def strip_def isspace_def lit_def)
  have path: "get_unique_filename (os_path_exists (files ?w)) (lit ''nft_collection'')
      (lit ''.json'') = Some (lit ''nft_collection.json'')"
    by (simp add: get_unique_filename_def os_path_exists_def lit_def)
  have doc: "json_dump (PyList ?data) =
             lit ''['' @ [10] @
             lit ''    {'' @ [10] @
             lit ''        '' @ [34] @ lit ''name'' @ [34] @ lit '': '' @
               [34, 1050, 92, 34, 92, 92, 92, 117, 48, 48, 48, 55, 92, 110, 1090, 34] @
               lit '','' @ [10] @
             lit ''        '' @ [34] @ lit ''price'' @ [34] @ lit '': '' @
               [34] @ lit ''1.5 TON'' @ [34] @ lit '','' @ [10] @
             lit ''        '' @ [34] @ lit ''image_url'' @ [34] @ lit '': '' @
               [34] @ lit ''http://x/1.png'' @ [34] @ [10] @
             lit ''    }'' @ [10] @
             lit '']''"
  proof -
    have nl: "newline_indent 0 = [10]" "newline_indent (Suc 0) = 10 # lit ''    ''"
      "newline_indent (Suc (Suc 0)) = 10 # lit ''        ''"
      by (simp_all add: newline_indent_def lit_def eval_nat_numeral)
    have nm: "py_encode_basestring [1050, 34, 92, 7, 10, 1090] =
        [34, 1050, 92, 34, 92, 92, 92, 117, 48, 48, 48, 55, 92, 110, 1090, 34]"
      by (simp add: py_encode_basestring_def escape_char_def hex_digit_def)
    have pl: "py_encode_basestring (lit s) = [34] @ lit s @ [34]"
      if "\<forall>c\<in>set (lit s). 32 \<le> c \<and> c \<noteq> 34 \<and> c \<noteq> 92" for s
      using that by (rule py_encode_basestring_plain)
    have keys: "py_encode_basestring (lit ''name'') = [34] @ lit ''name'' @ [34]"
      "py_encode_basestring (lit ''price'') = [34] @ lit ''price'' @ [34]"
      "py_encode_basestring (lit ''image_url'') = [34] @ lit ''image_url'' @ [34]"
      "py_encode_basestring (lit ''1.5 TON'') = [34] @ lit ''1.5 TON'' @ [34]"
      "py_encode_basestring (lit ''http://x/1.png'') = [34] @ lit ''http://x/1.png'' @ [34]"
      by (rule pl, simp add: lit_def)+
    have "json_dump (PyList ?data) =
        lit ''['' @ newline_indent (Suc 0) @
        (lit ''{'' @ newline_indent (Suc (Suc 0)) @
         ([34] @ lit ''name'' @ [34]) @ lit '': '' @
           [34, 1050, 92, 34, 92, 92, 92, 117, 48, 48, 48, 55, 92, 110, 1090, 34] @
         lit '','' @ newline_indent (Suc (Suc 0)) @
         ([34] @ lit ''price'' @ [34]) @ lit '': '' @ ([34] @ lit ''1.5 TON'' @ [34]) @
         lit '','' @ newline_indent (Suc (Suc 0)) @
         ([34] @ lit ''image_url'' @ [34]) @ lit '': '' @ ([34] @ lit ''http://x/1.png'' @ [34]) @
         newline_indent (Suc 0) @ lit ''}'') @
        newline_indent 0 @ lit '']''"
      by (simp add: json_dump_def nm keys)
    then show ?thesis
      by (simp add: nl lit_def)
  qed
  have enc: "?data \<noteq> [] \<and>
    (\<forall>n p u. PyDict [(lit ''name'', PyStr n), (lit ''price'', PyStr p),
                     (lit ''image_url'', PyStr u)] \<in> set ?data \<longrightarrow>
        utf8_encodable n \<and> utf8_encodable p \<and> utf8_encodable u)"
  proof (intro conjI allI impI)
    show "?data \<noteq> []" by simp
  next
    fix n p u
    assume "PyDict [(lit ''name'', PyStr n), (lit ''price'', PyStr p),
                     (lit ''image_url'', PyStr u)] \<in> set ?data"
    then have v: "n = [1050, 34, 92, 7, 10, 1090]" "p = lit ''1.5 TON''"
      "u = lit ''http://x/1.png''"
      by simp_all
    show "utf8_encodable n" "utf8_encodable p" "utf8_encodable u"
      unfolding v by (simp_all add: lit_def)
  qed
  from parse_html_to_json_output [OF rd data, THEN conjunct1] enc
  obtain p where
    g: "get_unique_filename (os_path_exists (files ?w)) (lit ''nft_collection'')
          (lit ''.json'') = Some p" and
    run: "parse_html_to_json (\<lambda>content. ?soup) ?w =
      Some (Inr (?w\<lparr>files := fmupd p (RegularFile (json_dump (PyList ?data))) (files ?w),
                       stdout := stdout ?w @ [Processed (length ?data), SavedTo p]\<rparr>))"
    by blast
  from g path have "p = lit ''nft_collection.json''" by simp
  with run show ?thesis
    unfolding doc by simp
qed

subsection \<open>Round trip\<close>

text \<open>
  Claim C6. Whenever the pipeline writes a (non-empty) Collection, reading the written
  file and parsing it as JSON gives back the Collection: the same objects in the same
  order, each with the same keys, in the same order, and the same values. The text of
  every non-empty Collection decodes to the Collection; whenever the run returns
  normally the file at the allocated path holds that text; and the run does so whenever
  the text can be encoded as UTF-8.
\<close>

theorem written_json_round_trip:
  assumes "open_read (files w) (lit ''index.html'') = Inr content"
    and "nft_data = fold process_item
           (find_all (html_parser content) (lit ''div'') (lit ''NftItemContainer'')) []"
    and "nft_data \<noteq> []"
  shows "json_loads (json_dump (PyList nft_data)) = Some (PyList nft_data) \<and>
         (\<forall>w'. parse_html_to_json html_parser w = Some (Inr w') \<longrightarrow>
            (\<exists>path doc.
               get_unique_filename (os_path_exists (files w)) (lit ''nft_collection'')
                 (lit ''.json'') = Some path \<and>
               open_read (files w') path = Inr doc \<and>
               doc = json_dump (PyList nft_data) \<and>
               json_loads doc = Some (PyList nft_data))) \<and>
         (utf8_encodable (json_dump (PyList nft_data)) \<longrightarrow>
            (\<exists>path w' doc.
               get_unique_filename (os_path_exists (files w)) (lit ''nft_collection'')
                 (lit ''.json'') = Some path \<and>
               parse_html_to_json html_parser w = Some (Inr w') \<and>
               open_read (files w') path = Inr doc \<and>
               doc = json_dump (PyList nft_data) \<and>
               json_loads doc = Some (PyList nft_data)))"
proof -
  obtain path where p: "get_unique_filename (os_path_exists (files w)) (lit ''nft_collection'')
      (lit ''.json'') = Some path"
    using get_unique_filename_total by blast
  let ?w = "w\<lparr>files := fmupd path (RegularFile (json_dump (PyList nft_data))) (files w),
               stdout := stdout w @ [Processed (length nft_data), SavedTo path]\<rparr>"
  note run = parse_html_to_json_regular [OF assms(1) p, of html_parser, folded assms(2)]
  have rd: "open_read (files ?w) path = Inr (json_dump (PyList nft_data))"
    by (simp add: open_read_def)
  have "\<forall>r\<in>set nft_data. \<exists>n p u.
      r = PyDict [(lit ''name'', PyStr n), (lit ''price'', PyStr p), (lit ''image_url'', PyStr u)]"
    unfolding assms(2) using emitted_record by blast
  with assms(3) have loads: "json_loads (json_dump (PyList nft_data)) = Some (PyList nft_data)"
    by (rule json_loads_records)
  have written: "\<exists>path doc.
               get_unique_filename (os_path_exists (files w)) (lit ''nft_collection'')
                 (lit ''.json'') = Some path \<and>
               open_read (files w') path = Inr doc \<and>
               doc = json_dump (PyList nft_data) \<and>
               json_loads doc = Some (PyList nft_data)"
    if "parse_html_to_json html_parser w = Some (Inr w')" for w'
  proof -
    from that run assms(3) have "w' = ?w"
      by (simp add: Let_def split: if_splits)
    with p rd loads show ?thesis by blast
  qed
  have normal: "parse_html_to_json html_parser w = Some (Inr ?w)"
    if "utf8_encodable (json_dump (PyList nft_data))"
    using that run assms(3) by (simp add: Let_def)
  show ?thesis
  proof (intro conjI allI impI)
    show "json_loads (json_dump (PyList nft_data)) = Some (PyList nft_data)" by (rule loads)
  next
    fix w' assume "parse_html_to_json html_parser w = Some (Inr w')"
    then show "\<exists>path doc.
               get_unique_filename (os_path_exists (files w)) (lit ''nft_collection'')
                 (lit ''.json'') = Some path \<and>
               open_read (files w') path = Inr doc \<and>
               doc = json_dump (PyList nft_data) \<and>
               json_loads doc = Some (PyList nft_data)"
      by (rule written)
  next
    assume "utf8_encodable (json_dump (PyList nft_data))"
    then have "parse_html_to_json html_parser w = Some (Inr ?w)" by (rule normal)
    with p rd loads show "\<exists>path w' doc.
               get_unique_filename (os_path_exists (files w)) (lit ''nft_collection'')
                 (lit ''.json'') = Some path \<and>
               parse_html_to_json html_parser w = Some (Inr w') \<and>
               open_read (files w') path = Inr doc \<and>
               doc = json_dump (PyList nft_data) \<and>
               json_loads doc = Some (PyList nft_data)"
      by (intro exI [of _ path] exI [of _ ?w] exI [of _ "json_dump (PyList nft_data)"]) simp
  qed
qed

theorem written_json_round_trip_witness:
  "json_loads
     (json_dump (PyList
        [PyDict [(lit ''name'', PyStr [1050, 34, 92, 1, 10, 1090]),
                 (lit ''price'', PyStr (lit ''Not Listed'')),
                 (lit ''image_url'', PyStr (lit ''http://x/1.png''))]])) =
   Some (PyList
        [PyDict [(lit ''name'', PyStr [1050, 34, 92, 1, 10, 1090]),
                 (lit ''price'', PyStr (lit ''Not Listed'')),
                 (lit ''image_url'', PyStr (lit ''http://x/1.png''))]])"
proof -
  let ?soup = "Tag (lit ''[document]'') [] Map.empty
        [Tag (lit ''div'') [lit ''NftItemContainer''] Map.empty
           [Tag (lit ''img'') [lit ''LibraryMedia''] [lit ''src'' \<mapsto> lit ''http://x/1.png''] [],
            Tag (lit ''span'') [lit ''NftItemNameContent__name''] Map.empty
              [NavigableString [32, 1050, 34, 92, 1, 10, 1090, 10]]]]"
  let ?w = "\<lparr>files = fmupd (lit ''index.html'') (RegularFile (lit ''<html>'')) fmempty,
             stdout = []\<rparr>"
  let ?data = "[PyDict [(lit ''name'', PyStr [1050, 34, 92, 1, 10, 1090]),
                        (lit ''price'', PyStr (lit ''Not Listed'')),
                        (lit ''image_url'', PyStr (lit ''http://x/1.png''))]]"
  have rd: "open_read (files ?w) (lit ''index.html'') = Inr (lit ''<html>'')"
    by (simp add: open_read_def)
  have data: "?data = fold process_item
      (find_all ((\<lambda>content. ?soup) (lit ''<html>'')) (lit ''div'') (lit ''NftItemContainer'')) []"
    by (simp add: process_item_def image_url_def name_def price_def find_def find_all_def
        get_text_strip_def strip_def isspace_def lit_def)
  have ne: "?data \<noteq> []" by simp
  from written_json_round_trip [OF rd data ne, THEN conjunct1] show ?thesis .
qed

end
